theory Spec2Isabelle
  imports Main "HOL-Library.AList"
begin

section \<open>The permission settings document\<close>

text \<open>
  The settings file \<^verbatim>\<open>permissions.json\<close> holds one JSON object: thread id \<open>\<rightarrow>\<close> Thread
  Record, whose \<^verbatim>\<open>users\<close> property maps user id \<open>\<rightarrow>\<close> User Record, whose
  \<^verbatim>\<open>permissions\<close> property is an array of command names. A JavaScript object is an
  association list here: keys in insertion order, the first binding of a key the one that
  counts (JavaScript enumerates keys that are array indices first; nothing proved about
  the store operations depends on the order, and the JSON values of the settings file
  below keep it). A property the code tests against \<^verbatim>\<open>undefined\<close> is an \<open>option\<close>.
  \<^verbatim>\<open>Object.entries\<close> of a Thread Record counts every own property, so the names of its
  properties other than \<^verbatim>\<open>users\<close> are kept in \<open>others\<close>. Properties inherited from
  \<^verbatim>\<open>Object.prototype\<close> are the matter of the subsection on property reads.
\<close>

datatype error = TypeError | SyntaxError | NetworkError

record user_record =
  permissions :: "string list option"

record thread_record =
  users :: "(string \<times> user_record) list option"
  others :: "string list"

type_synonym document = "(string \<times> thread_record) list"

text \<open>
  Modelled from the spec: the result of \<^verbatim>\<open>AdminUtils.getThreadAdmins\<close> of the module
  \<^verbatim>\<open>@commands/admin\<close>. The lookup reports either an error indicator or the admins of the
  thread and the bot owner; \<^verbatim>\<open>botOwner\<close> may be missing.
\<close>

record threadAdmins =
  hasError :: bool
  admins :: "string list"
  botOwner :: "string option"

subsection \<open>JSON values\<close>

text \<open>
  \<^verbatim>\<open>getPermissionSettings\<close> and \<^verbatim>\<open>savePermissionSettings\<close> pass the text of the file through
  \<^verbatim>\<open>JSON.parse\<close> and \<^verbatim>\<open>JSON.stringify\<close>. The two are built-ins of the runtime, not code of
  the repository; they are modelled here from the ECMAScript standard (ECMA-262, the
  clauses on \<^verbatim>\<open>JSON.parse\<close>, \<^verbatim>\<open>JSON.stringify\<close>, \<^verbatim>\<open>QuoteJSONString\<close>,
  \<^verbatim>\<open>SerializeJSONObject\<close>, \<^verbatim>\<open>SerializeJSONArray\<close>, \<^verbatim>\<open>CreateDataProperty\<close> and
  \<^verbatim>\<open>OrdinaryOwnPropertyKeys\<close>).

  A text is the sequence of its UTF-16 code units; the type \<open>string\<close> holds the code units
  below 256, and texts with other code units are outside the model. Number values are
  outside the model too: the Settings Document is made of objects, arrays and strings.
  An object is the association list of its own properties in the order in which the
  runtime enumerates them: the keys that are array indices in ascending numeric order
  first, then the other keys in the order of their creation.
\<close>

datatype json =
  JNull
| JBool bool
| JString string
| JArray "json list"
| JObject "(string \<times> json) list"

subsection \<open>JSON.stringify with indentation 4\<close>

text \<open>
  \<^verbatim>\<open>QuoteJSONString\<close> escapes the quotation mark, the backslash and the code units below
  32, the latter by their short form where there is one and otherwise by a backslash, the
  letter u, two zeros and two lower-case hexadecimal digits.
\<close>

definition hexDigit :: "nat \<Rightarrow> char" where
  "hexDigit n = char_of (if n < 10 then 48 + n else 87 + n)"

definition quoteChar :: "char \<Rightarrow> string" where
  "quoteChar c =
    (if c = CHR 0x08 then [CHR 0x5C, CHR ''b'']
     else if c = CHR 0x09 then [CHR 0x5C, CHR ''t'']
     else if c = CHR 0x0A then [CHR 0x5C, CHR ''n'']
     else if c = CHR 0x0C then [CHR 0x5C, CHR ''f'']
     else if c = CHR 0x0D then [CHR 0x5C, CHR ''r'']
     else if c = CHR 0x22 then [CHR 0x5C, CHR 0x22]
     else if c = CHR 0x5C then [CHR 0x5C, CHR 0x5C]
     else if (of_char c :: nat) < 32 then
       [CHR 0x5C, CHR ''u'', CHR ''0'', CHR ''0'',
        hexDigit ((of_char c :: nat) div 16), hexDigit ((of_char c :: nat) mod 16)]
     else [c])"

definition QuoteJSONString :: "string \<Rightarrow> string" where
  "QuoteJSONString s = CHR 0x22 # concat (map quoteChar s) @ [CHR 0x22]"

text \<open>
  With the gap of four blanks every element of a non-empty array and every member of a
  non-empty object stands on a line of its own, indented by four blanks for each level
  of nesting; a member is its quoted key, a colon, one blank and its value; the closing
  bracket stands on a line of its own at the indentation of the opening one. An empty
  array is \<^verbatim>\<open>[]\<close> and an empty object \<^verbatim>\<open>{}\<close>.
\<close>

definition indentation :: "nat \<Rightarrow> string" where
  "indentation depth = replicate (4 * depth) CHR '' ''"

fun SerializeJSONProperty :: "nat \<Rightarrow> json \<Rightarrow> string"
and serializeElements :: "nat \<Rightarrow> json list \<Rightarrow> string"
and serializeMembers :: "nat \<Rightarrow> (string \<times> json) list \<Rightarrow> string" where
  "SerializeJSONProperty depth JNull = ''null''"
| "SerializeJSONProperty depth (JBool b) = (if b then ''true'' else ''false'')"
| "SerializeJSONProperty depth (JString s) = QuoteJSONString s"
| "SerializeJSONProperty depth (JArray vs) =
     (if vs = [] then ''[]''
      else CHR ''['' # serializeElements depth vs @ CHR 0x0A # indentation depth @ '']'')"
| "SerializeJSONProperty depth (JObject ms) =
     (if ms = [] then ''{}''
      else CHR ''{'' # serializeMembers depth ms @ CHR 0x0A # indentation depth @ ''}'')"
| "serializeElements depth [] = []"
| "serializeElements depth (v # vs) =
     CHR 0x0A # indentation (Suc depth) @ SerializeJSONProperty (Suc depth) v
       @ (if vs = [] then [] else CHR '','' # serializeElements depth vs)"
| "serializeMembers depth [] = []"
| "serializeMembers depth ((k, v) # ms) =
     CHR 0x0A # indentation (Suc depth) @ QuoteJSONString k @ '': ''
       @ SerializeJSONProperty (Suc depth) v
       @ (if ms = [] then [] else CHR '','' # serializeMembers depth ms)"

definition JSON_stringify :: "json \<Rightarrow> string" where
  "JSON_stringify v = SerializeJSONProperty 0 v"

subsection \<open>JSON.parse\<close>

text \<open>
  A step of the parser yields the value read and the rest of the text, or rejects the
  text (\<^verbatim>\<open>JSON.parse\<close> throws a \<^verbatim>\<open>SyntaxError\<close>), or meets what is outside the model: a
  number, or the escape by four hexadecimal digits of a code unit from 256 on.
\<close>

datatype 'a parsed = Parsed 'a string | Rejected | Unmodelled

definition mapParsed :: "('a \<Rightarrow> 'b) \<Rightarrow> 'a parsed \<Rightarrow> 'b parsed" where
  "mapParsed f r =
    (case r of Parsed x rest \<Rightarrow> Parsed (f x) rest | Rejected \<Rightarrow> Rejected
     | Unmodelled \<Rightarrow> Unmodelled)"

definition jsonSpace :: "char \<Rightarrow> bool" where
  "jsonSpace c = (c \<in> set [CHR 0x09, CHR 0x0A, CHR 0x0D, CHR 0x20])"

definition skipSpace :: "string \<Rightarrow> string" where
  "skipSpace text = dropWhile jsonSpace text"

definition startsWith :: "string \<Rightarrow> string \<Rightarrow> bool" where
  "startsWith literal text = (take (length literal) text = literal)"

definition hexValue :: "char \<Rightarrow> nat option" where
  "hexValue c =
    (let n = (of_char c :: nat)
     in if 48 \<le> n \<and> n \<le> 57 then Some (n - 48)
        else if 97 \<le> n \<and> n \<le> 102 then Some (n - 87)
        else if 65 \<le> n \<and> n \<le> 70 then Some (n - 55)
        else None)"

definition unescape :: "char \<Rightarrow> char option" where
  "unescape e =
    (if e = CHR 0x22 then Some (CHR 0x22)
     else if e = CHR 0x5C then Some (CHR 0x5C)
     else if e = CHR ''/'' then Some (CHR ''/'')
     else if e = CHR ''b'' then Some (CHR 0x08)
     else if e = CHR ''f'' then Some (CHR 0x0C)
     else if e = CHR ''n'' then Some (CHR 0x0A)
     else if e = CHR ''r'' then Some (CHR 0x0D)
     else if e = CHR ''t'' then Some (CHR 0x09)
     else None)"

text \<open>
  The characters of a string after its opening quotation mark, up to the closing one: a
  code unit from 32 on other than the quotation mark and the backslash stands for
  itself, a backslash starts an escape.
\<close>

fun JSONStringCharacters :: "string \<Rightarrow> string parsed" where
  "JSONStringCharacters [] = Rejected"
| "JSONStringCharacters (c # cs) =
    (if c = CHR 0x22 then Parsed [] cs
     else if c = CHR 0x5C then
       (case cs of
          [] \<Rightarrow> Rejected
        | e # rest \<Rightarrow>
           (if e = CHR ''u'' then
              (case rest of
                 h1 # h2 # h3 # h4 # rest' \<Rightarrow>
                   (case (hexValue h1, hexValue h2, hexValue h3, hexValue h4) of
                      (Some a, Some b, Some c', Some d) \<Rightarrow>
                        (let n = ((a * 16 + b) * 16 + c') * 16 + d
                         in if n < 256
                            then mapParsed (Cons (char_of n)) (JSONStringCharacters rest')
                            else Unmodelled)
                    | _ \<Rightarrow> Rejected)
               | _ \<Rightarrow> Rejected)
            else (case unescape e of
                    None \<Rightarrow> Rejected
                  | Some ch \<Rightarrow> mapParsed (Cons ch) (JSONStringCharacters rest))))
     else if (of_char c :: nat) < 32 then Rejected
     else mapParsed (Cons c) (JSONStringCharacters cs))"

text \<open>
  A key is an array index when it is the decimal numeral, without leading zeros, of an
  integer from 0 to 4294967294. \<^verbatim>\<open>CreateDataProperty\<close> gives an existing key its new value
  in place; a new array index goes before the first key that is not a smaller array
  index, any other new key goes to the end.
\<close>

definition digit :: "char \<Rightarrow> bool" where
  "digit c = (48 \<le> (of_char c :: nat) \<and> (of_char c :: nat) \<le> 57)"

function ToString :: "int \<Rightarrow> string" where
  "ToString n =
    (if n < 10 then [char_of (48 + n)]
     else ToString (n div 10) @ [char_of (48 + n mod 10)])"
  by pat_completeness auto

termination
  by (relation "measure nat") auto

definition arrayIndex :: "string \<Rightarrow> int option" where
  "arrayIndex key =
    (if list_all digit key then
       (let n = foldl (\<lambda>a c. 10 * a + ((of_char c :: int) - 48)) 0 key
        in if ToString n = key \<and> n \<le> 4294967294 then Some n else None)
     else None)"

fun insertIndexed :: "int \<Rightarrow> string \<times> 'a \<Rightarrow> (string \<times> 'a) list \<Rightarrow> (string \<times> 'a) list" where
  "insertIndexed i p [] = [p]"
| "insertIndexed i p (q # qs) =
     (case arrayIndex (fst q) of
        Some j \<Rightarrow> if j < i then q # insertIndexed i p qs else p # q # qs
      | None \<Rightarrow> p # q # qs)"

definition CreateDataProperty :: "string \<Rightarrow> 'a \<Rightarrow> (string \<times> 'a) list \<Rightarrow> (string \<times> 'a) list" where
  "CreateDataProperty key v obj =
    (case arrayIndex key of
       Some i \<Rightarrow> if key \<in> fst ` set obj then AList.update key v obj
                 else insertIndexed i (key, v) obj
     | None \<Rightarrow> AList.update key v obj)"

text \<open>
  The grammar of values, of the elements of a non-empty array and of the members of a
  non-empty object. The first argument bounds the number of nested calls and is spent
  by one at each call; a parse that has spent it is outside the model. \<open>JSON_parse\<close>
  starts with twice the length of the text and two, and the saved texts are proved below
  to be parsed within that bound. The members are defined on the object one after the
  other, so that of two members with the same key the later one counts.
\<close>

fun JSONValue :: "nat \<Rightarrow> string \<Rightarrow> json parsed"
and JSONElements :: "nat \<Rightarrow> string \<Rightarrow> json list parsed"
and JSONMembers :: "nat \<Rightarrow> (string \<times> json) list \<Rightarrow> string \<Rightarrow> (string \<times> json) list parsed" where
  "JSONValue 0 text = Unmodelled"
| "JSONValue (Suc n) text =
    (case skipSpace text of
       [] \<Rightarrow> Rejected
     | c # cs \<Rightarrow>
        if c = CHR 0x22 then mapParsed JString (JSONStringCharacters cs)
        else if c = CHR ''['' then
          (case skipSpace cs of
             [] \<Rightarrow> Rejected
           | c' # cs' \<Rightarrow>
              if c' = CHR '']'' then Parsed (JArray []) cs'
              else mapParsed JArray (JSONElements n cs))
        else if c = CHR ''{'' then
          (case skipSpace cs of
             [] \<Rightarrow> Rejected
           | c' # cs' \<Rightarrow>
              if c' = CHR ''}'' then Parsed (JObject []) cs'
              else mapParsed JObject (JSONMembers n [] cs))
        else if startsWith ''null'' (c # cs) then Parsed JNull (drop 3 cs)
        else if startsWith ''true'' (c # cs) then Parsed (JBool True) (drop 3 cs)
        else if startsWith ''false'' (c # cs) then Parsed (JBool False) (drop 4 cs)
        else if c = CHR ''-'' \<or> digit c then Unmodelled
        else Rejected)"
| "JSONElements 0 text = Unmodelled"
| "JSONElements (Suc n) text =
    (case JSONValue n text of
       Parsed v rest \<Rightarrow>
         (case skipSpace rest of
            [] \<Rightarrow> Rejected
          | c # cs \<Rightarrow>
             if c = CHR '','' then mapParsed (Cons v) (JSONElements n cs)
             else if c = CHR '']'' then Parsed [v] cs
             else Rejected)
     | Rejected \<Rightarrow> Rejected
     | Unmodelled \<Rightarrow> Unmodelled)"
| "JSONMembers 0 obj text = Unmodelled"
| "JSONMembers (Suc n) obj text =
    (case skipSpace text of
       [] \<Rightarrow> Rejected
     | q # cs \<Rightarrow>
        if q \<noteq> CHR 0x22 then Rejected
        else
          (case JSONStringCharacters cs of
             Parsed key rest \<Rightarrow>
               (case skipSpace rest of
                  [] \<Rightarrow> Rejected
                | colon # rest1 \<Rightarrow>
                   if colon \<noteq> CHR '':'' then Rejected
                   else
                     (case JSONValue n rest1 of
                        Parsed v rest2 \<Rightarrow>
                          (case skipSpace rest2 of
                             [] \<Rightarrow> Rejected
                           | c # rest3 \<Rightarrow>
                              if c = CHR '','' then
                                JSONMembers n (CreateDataProperty key v obj) rest3
                              else if c = CHR ''}'' then
                                Parsed (CreateDataProperty key v obj) rest3
                              else Rejected)
                      | Rejected \<Rightarrow> Rejected
                      | Unmodelled \<Rightarrow> Unmodelled))
           | Rejected \<Rightarrow> Rejected
           | Unmodelled \<Rightarrow> Unmodelled))"

text \<open>
  \<open>JSON_parse\<close> is \<open>Some (Inr v)\<close> when \<^verbatim>\<open>JSON.parse\<close> returns the value \<open>v\<close>,
  \<open>Some (Inl SyntaxError)\<close> when it throws, and \<open>None\<close> on a text outside the model.
\<close>

definition JSON_parse :: "string \<Rightarrow> (error + json) option" where
  "JSON_parse text =
    (case JSONValue (2 * length text + 2) text of
       Parsed v rest \<Rightarrow> if skipSpace rest = [] then Some (Inr v) else Some (Inl SyntaxError)
     | Rejected \<Rightarrow> Some (Inl SyntaxError)
     | Unmodelled \<Rightarrow> None)"

text \<open>
  The values whose objects list their keys once each and in the order of enumeration;
  these are the values a runtime can hold.
\<close>

fun keysInOrder :: "string list \<Rightarrow> bool" where
  "keysInOrder [] = True"
| "keysInOrder (k # ks) =
    (k \<notin> set ks \<and> keysInOrder ks \<and>
     (case arrayIndex k of
        Some i \<Rightarrow> list_all (\<lambda>k'. case arrayIndex k' of Some j \<Rightarrow> i < j | None \<Rightarrow> True) ks
      | None \<Rightarrow> list_all (\<lambda>k'. arrayIndex k' = None) ks))"

fun wellFormed :: "json \<Rightarrow> bool"
and wellFormedElements :: "json list \<Rightarrow> bool"
and wellFormedMembers :: "(string \<times> json) list \<Rightarrow> bool" where
  "wellFormed JNull = True"
| "wellFormed (JBool b) = True"
| "wellFormed (JString s) = True"
| "wellFormed (JArray vs) = wellFormedElements vs"
| "wellFormed (JObject ms) = (keysInOrder (map fst ms) \<and> wellFormedMembers ms)"
| "wellFormedElements [] = True"
| "wellFormedElements (v # vs) = (wellFormed v \<and> wellFormedElements vs)"
| "wellFormedMembers [] = True"
| "wellFormedMembers (m # ms) = (wellFormed (snd m) \<and> wellFormedMembers ms)"

subsection \<open>PermissionUtil.getPermissionSettings and savePermissionSettings\<close>

text \<open>
  The file is its text: \<open>getPermissionSettings\<close> takes the text read from the file, and
  \<open>savePermissionSettings\<close> yields the text written to it. The store operations of the
  next subsections take the document that \<^verbatim>\<open>getPermissionSettings()\<close> returns at the type
  \<open>document\<close>, which keeps of the parsed value what they read.
\<close>

definition getPermissionSettings :: "string \<Rightarrow> (error + json) option" where
  "getPermissionSettings jsonString = JSON_parse (if jsonString = [] then ''{}'' else jsonString)"

definition savePermissionSettings :: "json \<Rightarrow> string" where
  "savePermissionSettings newPermissionSettings = JSON_stringify newPermissionSettings"

text \<open>
  A settings file written by hand, without line breaks and with its thread ids in no
  particular order, and the document it holds.
\<close>

definition storedText :: string where
  "storedText =
    ''{\"T2\":{}, \"10\":{\"users\":{}},\"9\":{\"users\":{\"U1\":{\"permissions\":[\"meme\",\"help\"]}}}}''"

definition storedDocument :: json where
  "storedDocument =
    JObject [(''9'', JObject [(''users'', JObject [(''U1'', JObject [(''permissions'',
               JArray [JString ''meme'', JString ''help''])])])]),
             (''10'', JObject [(''users'', JObject [])]),
             (''T2'', JObject [])]"

subsection \<open>Property reads on plain objects\<close>

text \<open>
  The code reads \<^verbatim>\<open>permissions[threadID]\<close> and \<^verbatim>\<open>users[userID]\<close> by plain property access,
  which falls back on the prototype of the object: for a key that is not an own property
  but names a property of \<^verbatim>\<open>Object.prototype\<close>, the read yields that inherited value (a
  function, or the prototype object itself for \<^verbatim>\<open>__proto__\<close>), not \<^verbatim>\<open>undefined\<close>. The names
  are those of the ECMAScript standard and its annex B. An inherited value has no
  property \<^verbatim>\<open>users\<close> and no property \<^verbatim>\<open>permissions\<close> as long as the prototype objects of the
  runtime are untouched; every call below is taken in such a runtime.
\<close>

definition objectPrototypeNames :: "string list" where
  "objectPrototypeNames =
    [''constructor'', ''__defineGetter__'', ''__defineSetter__'', ''hasOwnProperty'',
     ''__lookupGetter__'', ''__lookupSetter__'', ''isPrototypeOf'',
     ''propertyIsEnumerable'', ''toString'', ''valueOf'', ''__proto__'',
     ''toLocaleString'']"

datatype 'a property = Undefined | Own 'a | Inherited

definition getProperty :: "(string \<times> 'a) list \<Rightarrow> string \<Rightarrow> 'a property" where
  "getProperty obj key =
    (case map_of obj key of
       Some v \<Rightarrow> Own v
     | None \<Rightarrow> if key \<in> set objectPrototypeNames then Inherited else Undefined)"

subsection \<open>PermissionUtil.userHasPermission\<close>

text \<open>
  The operations of \<^verbatim>\<open>PermissionUtil\<close> take the document that
  \<^verbatim>\<open>getPermissionSettings()\<close> returns as the argument \<open>settings\<close>. Reading a property of
  \<^verbatim>\<open>undefined\<close> throws; that is the result \<open>Inl TypeError\<close>. An inherited value in the
  place of the Thread Record is not \<^verbatim>\<open>null\<close> and its \<^verbatim>\<open>users\<close> is \<^verbatim>\<open>undefined\<close>, so line 61
  throws; an inherited value in the place of the User Record is not \<^verbatim>\<open>undefined\<close> and its
  \<^verbatim>\<open>permissions\<close> is \<^verbatim>\<open>undefined\<close>, so line 67 throws at the first command, if there is one.
\<close>

definition userHasPermission ::
  "(string \<Rightarrow> threadAdmins) \<Rightarrow> document \<Rightarrow> string \<Rightarrow> string \<Rightarrow> string list \<Rightarrow> error + bool" where
  "userHasPermission getThreadAdmins settings threadID userID commands =
    (let threadAdmins = getThreadAdmins threadID;
         admins' = (if hasError threadAdmins then [] else admins threadAdmins)
     in if userID \<in> set admins' \<or> Some userID = botOwner threadAdmins then Inr True
        else
          (case getProperty settings threadID of
             Undefined \<Rightarrow> Inr False
           | Inherited \<Rightarrow> Inl TypeError
           | Own thread \<Rightarrow>
              (case users thread of
                 None \<Rightarrow> Inl TypeError
               | Some users' \<Rightarrow>
                  (case getProperty users' userID of
                     Undefined \<Rightarrow> Inr False
                   | Inherited \<Rightarrow> (if commands = [] then Inr True else Inl TypeError)
                   | Own user \<Rightarrow>
                      (case permissions user of
                         None \<Rightarrow> (if commands = [] then Inr True else Inl TypeError)
                       | Some perms \<Rightarrow>
                          Inr (foldl (\<lambda>count command.
                                        count + (if command \<in> set perms then 1 else 0))
                                 (0::nat) commands
                               = length commands))))))"

subsection \<open>PermissionUtil.addPermissionToUserInThread\<close>

text \<open>
  The result carries the returned boolean and the document written by
  \<^verbatim>\<open>savePermissionSettings\<close>, \<open>None\<close> when the file is not written. Lines 91 and 93 keep
  whatever the property read yields unless it is \<^verbatim>\<open>undefined\<close>. So for a user id that
  names an inherited property and is not stored, the inherited value is taken for the
  User Record: it is assigned into the users mapping and the commands are pushed onto a
  \<^verbatim>\<open>permissions\<close> array of the inherited value itself. \<^verbatim>\<open>JSON.stringify\<close> leaves out a
  property whose value is a function, and assigning to \<^verbatim>\<open>__proto__\<close> makes no own
  property, so the document written has no User Record for that id. The same holds for
  a thread id at line 91; that case cannot follow a permission check that returned
  false, since the check throws there.
\<close>

definition addPermissionToUserInThread ::
  "(string \<Rightarrow> threadAdmins) \<Rightarrow> document \<Rightarrow> string \<Rightarrow> string \<Rightarrow> string list
    \<Rightarrow> error + (bool \<times> document option)" where
  "addPermissionToUserInThread getThreadAdmins settings threadID userID commands =
    (case userHasPermission getThreadAdmins settings threadID userID commands of
       Inl e \<Rightarrow> Inl e
     | Inr True \<Rightarrow> Inr (False, None)
     | Inr False \<Rightarrow>
        (case getProperty settings threadID of
           Inherited \<Rightarrow> Inr (True, Some settings)
         | found \<Rightarrow>
            (let thread = (case found of
                             Own th \<Rightarrow> th
                           | _ \<Rightarrow> \<lparr>users = None, others = []\<rparr>);
                 users' = (case users thread of None \<Rightarrow> [] | Some us \<Rightarrow> us)
             in case getProperty users' userID of
                  Inherited \<Rightarrow>
                    Inr (True, Some (AList.update threadID (thread\<lparr>users := Some users'\<rparr>)
                                      settings))
                | foundUser \<Rightarrow>
                    (let user = (case foundUser of
                                   Own ur \<Rightarrow> ur
                                 | _ \<Rightarrow> \<lparr>permissions = None\<rparr>);
                         perms = (case permissions user of None \<Rightarrow> [] | Some ps \<Rightarrow> ps);
                         user' = user\<lparr>permissions := Some (perms @ commands)\<rparr>;
                         thread' = thread\<lparr>users := Some (AList.update userID user' users')\<rparr>
                     in Inr (True, Some (AList.update threadID thread' settings))))))"

subsection \<open>PermissionUtil.removePermissionFromUserInThread\<close>

text \<open>
  The four guards of lines 114 to 117 compare with \<^verbatim>\<open>undefined\<close>. An inherited value in the
  place of the Thread Record has no \<^verbatim>\<open>users\<close>, and one in the place of the User Record has
  no \<^verbatim>\<open>permissions\<close>, so the call returns false for it as it does for an absent record:
  looking up own properties is enough here.
\<close>

definition removePermissionFromUserInThread ::
  "document \<Rightarrow> string \<Rightarrow> string \<Rightarrow> string list \<Rightarrow> error + (bool \<times> document option)" where
  "removePermissionFromUserInThread settings threadID userID commands =
    (case map_of settings threadID of
       None \<Rightarrow> Inr (False, None)
     | Some thread \<Rightarrow>
        (case users thread of
           None \<Rightarrow> Inr (False, None)
         | Some users0 \<Rightarrow>
            (case map_of users0 userID of
               None \<Rightarrow> Inr (False, None)
             | Some user \<Rightarrow>
                (case permissions user of
                   None \<Rightarrow> Inr (False, None)
                 | Some userGrantedPerms \<Rightarrow>
                    if length userGrantedPerms = 0 then Inr (True, None)
                    else
                      (let perms = filter (\<lambda>command. command \<notin> set commands)
                                     userGrantedPerms;
                           users1 = AList.update userID (user\<lparr>permissions := Some perms\<rparr>) users0;
                           users2 = (if length perms = 0 then AList.delete userID users1
                                     else users1);
                           thread1 = (if length users2 = 0 then thread\<lparr>users := None\<rparr>
                                      else thread\<lparr>users := Some users2\<rparr>)
                       in if users thread1 = None \<and> length (others thread1) = 0
                          then Inr (True, Some (AList.delete threadID settings))
                          else Inr (True, Some (AList.update threadID thread1 settings)))))))"

subsection \<open>Vocabulary of the specification\<close>

text \<open>The stored document once a call has returned.\<close>

definition stored_after :: "document \<Rightarrow> bool \<times> document option \<Rightarrow> document" where
  "stored_after settings r = (case snd r of None \<Rightarrow> settings | Some d \<Rightarrow> d)"

text \<open>
  The user is an admin of the thread or the bot owner; a failed lookup has no admins.
\<close>

definition adminOrOwner :: "threadAdmins \<Rightarrow> string \<Rightarrow> bool" where
  "adminOrOwner ta userID =
    ((\<not> hasError ta \<and> userID \<in> set (admins ta)) \<or> botOwner ta = Some userID)"

text \<open>An id that does not name a property of \<^verbatim>\<open>Object.prototype\<close>.\<close>

definition plain :: "string \<Rightarrow> bool" where
  "plain key = (key \<notin> set objectPrototypeNames)"

text \<open>The User Record stored for a user under a thread, if there is one.\<close>

definition user_of :: "document \<Rightarrow> string \<Rightarrow> string \<Rightarrow> user_record option" where
  "user_of d threadID userID =
    (case map_of d threadID of
       None \<Rightarrow> None
     | Some th \<Rightarrow> (case users th of None \<Rightarrow> None | Some us \<Rightarrow> map_of us userID))"

text \<open>
  The command names in the permissions collection of that User Record, in order and with
  repetitions; none when a level of the path is absent.
\<close>

definition held :: "document \<Rightarrow> string \<Rightarrow> string \<Rightarrow> string list" where
  "held d threadID userID =
    (case user_of d threadID userID of
       None \<Rightarrow> []
     | Some ur \<Rightarrow> (case permissions ur of None \<Rightarrow> [] | Some ps \<Rightarrow> ps))"


text \<open>
  The shape of the documents the store writes: no property but \<^verbatim>\<open>users\<close> in a Thread
  Record, a users mapping that is present and not empty, a permissions collection in
  every User Record.
\<close>

definition complete_users :: "(string \<times> user_record) list \<Rightarrow> bool" where
  "complete_users us = (\<forall>(u, ur) \<in> set us. permissions ur \<noteq> None)"

definition invariant :: "document \<Rightarrow> bool" where
  "invariant d =
    (\<forall>(t, th) \<in> set d.
       others th = []
       \<and> (case users th of
            None \<Rightarrow> False
          | Some us \<Rightarrow> us \<noteq> [] \<and> complete_users us))"

text \<open>
  Sequences of calls of the two mutating operations, from a given document. The
  prototype objects stay untouched along a sequence as long as no grant is made to a user
  id that names an inherited property; the calls with plain ids are marked.
\<close>

datatype call =
  Add "string \<Rightarrow> threadAdmins" string string "string list"
| Remove string string "string list"

fun perform :: "call \<Rightarrow> document \<Rightarrow> error + (bool \<times> document option)" where
  "perform (Add getThreadAdmins threadID userID commands) d =
     addPermissionToUserInThread getThreadAdmins d threadID userID commands"
| "perform (Remove threadID userID commands) d =
     removePermissionFromUserInThread d threadID userID commands"

fun plain_call :: "call \<Rightarrow> bool" where
  "plain_call (Add getThreadAdmins threadID userID commands) = (plain threadID \<and> plain userID)"
| "plain_call (Remove threadID userID commands) = True"

fun run :: "call list \<Rightarrow> document \<Rightarrow> error + document" where
  "run [] d = Inr d"
| "run (c # cs) d =
     (case perform c d of Inl e \<Rightarrow> Inl e | Inr r \<Rightarrow> run cs (stored_after d r))"

text \<open>Example data: admin lookups and a stored document.\<close>

definition noAdmins :: "string \<Rightarrow> threadAdmins" where
  "noAdmins threadID = \<lparr>hasError = True, admins = [], botOwner = None\<rparr>"

definition someAdmins :: "string \<Rightarrow> threadAdmins" where
  "someAdmins threadID = \<lparr>hasError = False, admins = [''A1''], botOwner = Some ''B0''\<rparr>"

definition memeDoc :: document where
  "memeDoc = [(''T1'', \<lparr>users = Some [(''U1'', \<lparr>permissions = Some [''meme'']\<rparr>)], others = []\<rparr>)]"

section \<open>The permission command\<close>

text \<open>
  \<^verbatim>\<open>PermissionCommand\<close> receives the match of its pattern (\<open>m0\<close> the whole text, \<open>m1\<close>
  the action, \<open>m2\<close> the command list), the event with its mentions, the registered
  commands, and the chat API. The bot state holds the stored document, the number of
  times the settings file was written, and the messages sent. A message is its text
  without the leading pictograph, which the constructor stands for; the position of a
  mention inside the text (\<^verbatim>\<open>fromIndex\<close>) is left out. \<^verbatim>\<open>getThreadInfo\<close> is awaited and may
  reject.
\<close>

text \<open>
  Modelled from the spec: the types \<^verbatim>\<open>SnoopBotCommandOptions\<close>, \<^verbatim>\<open>FCAMainEvent\<close> and the thread
  info of \<^verbatim>\<open>@snoopbot\<close>. A registered command has a name and may be administrator-only; an
  event carries the thread, the message and the mentions (user id \<open>\<rightarrow>\<close> tag); the thread
  info lists the participants and the user info. The fields are the ones the code reads.
\<close>

record commandOptions =
  name :: string
  adminOnly :: bool

record event =
  threadID :: string
  messageID :: string
  mentions :: "(string \<times> string) list"

record userInfoEntry =
  uinfo_id :: string
  uinfo_name :: string

record threadInfo =
  participantIDs :: "string list"
  userInfo :: "userInfoEntry list"

record matches =
  m0 :: string
  m1 :: string
  m2 :: string

record mention =
  mention_id :: string
  tag :: string

datatype message =
  Warning string
| Robot string
| RobotMentions string "mention list"

record bot =
  stored :: document
  writes :: nat
  sent :: "(message \<times> string \<times> string) list"

text \<open>
  \<^verbatim>\<open>String.prototype.trim\<close>, \<^verbatim>\<open>split\<close>, \<^verbatim>\<open>indexOf\<close> and \<^verbatim>\<open>Array.prototype.join\<close> on
  strings of 8-bit code units; the white space of \<open>trim\<close> is the part of JavaScript's
  that fits in 8 bits.
\<close>

definition is_space :: "char \<Rightarrow> bool" where
  "is_space c = (c \<in> set [CHR 0x09, CHR 0x0A, CHR 0x0B, CHR 0x0C, CHR 0x0D, CHR 0x20, CHR 0xA0])"

definition trim :: "string \<Rightarrow> string" where
  "trim s = rev (dropWhile is_space (rev (dropWhile is_space s)))"

fun split :: "char \<Rightarrow> string \<Rightarrow> string list" where
  "split sep [] = [[]]"
| "split sep (c # cs) =
     (if c = sep then [] # split sep cs
      else (case split sep cs of [] \<Rightarrow> [[c]] | p # ps \<Rightarrow> (c # p) # ps))"

fun join :: "string \<Rightarrow> string list \<Rightarrow> string" where
  "join sep [] = []"
| "join sep [x] = x"
| "join sep (x # y # ys) = x @ sep @ join sep (y # ys)"

fun indexOf_from :: "nat \<Rightarrow> string \<Rightarrow> string \<Rightarrow> int" where
  "indexOf_from i [] needle = (if needle = [] then int i else - 1)"
| "indexOf_from i (c # cs) needle =
     (if take (length needle) (c # cs) = needle then int i
      else indexOf_from (Suc i) cs needle)"

definition indexOf :: "string \<Rightarrow> string \<Rightarrow> int" where
  "indexOf s needle = indexOf_from 0 s needle"

text \<open>\<^verbatim>\<open>api.sendMessage\<close> is not awaited: the message is recorded as sent.\<close>

definition sendMessage :: "message \<Rightarrow> string \<Rightarrow> string \<Rightarrow> bot \<Rightarrow> bot" where
  "sendMessage msg tid mid b = b\<lparr>sent := sent b @ [(msg, tid, mid)]\<rparr>"

text \<open>The effect of a store call on the settings file.\<close>

definition persist :: "bool \<times> document option \<Rightarrow> bot \<Rightarrow> bot" where
  "persist r b = (case snd r of None \<Rightarrow> b | Some d \<Rightarrow> b\<lparr>stored := d, writes := writes b + 1\<rparr>)"

text \<open>Lines 177 to 179 and 247 to 249: the token \<^verbatim>\<open>all\<close> in first position.\<close>

definition expandAll :: "commandOptions list \<Rightarrow> string list \<Rightarrow> string list" where
  "expandAll commands commandsToGive =
    (case commandsToGive of
       [] \<Rightarrow> commandsToGive
     | first # _ \<Rightarrow> if first = ''all'' then map name commands else commandsToGive)"

text \<open>
  Lines 181 to 203 and 251 to 272: without mentions, \<^verbatim>\<open>@all\<close> makes every participant of
  the thread a target; a participant without an entry in \<^verbatim>\<open>userInfo\<close> leaves the
  variable undefined, and reading its \<^verbatim>\<open>id\<close> throws. The result \<open>None\<close> is the case
  without mentions and without \<^verbatim>\<open>@all\<close>.
\<close>

fun findUserInfo :: "userInfoEntry list \<Rightarrow> string \<Rightarrow> userInfoEntry option" where
  "findUserInfo [] participantID = None"
| "findUserInfo (uinfo # rest) participantID =
     (if uinfo_id uinfo = participantID then Some uinfo else findUserInfo rest participantID)"

fun addParticipants ::
  "userInfoEntry list \<Rightarrow> string list \<Rightarrow> (string \<times> string) list
    \<Rightarrow> error + (string \<times> string) list" where
  "addParticipants infos [] persons = Inr persons"
| "addParticipants infos (participantID # rest) persons =
     (case findUserInfo infos participantID of
        None \<Rightarrow> Inl TypeError
      | Some uinfo \<Rightarrow>
          addParticipants infos rest
            (AList.update (uinfo_id uinfo) (CHR ''@'' # uinfo_name uinfo) persons))"

definition resolvePersons ::
  "(string \<Rightarrow> error + threadInfo) \<Rightarrow> matches \<Rightarrow> event \<Rightarrow> (string \<times> string) list
    \<Rightarrow> error + (string \<times> string) list option" where
  "resolvePersons getThreadInfo matches event persons =
    (if length persons = 0 then
       (if indexOf (m0 matches) ''@all'' = - 1 then Inr None
        else
          (case getThreadInfo (threadID event) of
             Inl e \<Rightarrow> Inl e
           | Inr threadInfo \<Rightarrow>
              (case addParticipants (userInfo threadInfo) (participantIDs threadInfo) persons of
                 Inl e \<Rightarrow> Inl e
               | Inr persons' \<Rightarrow> Inr (Some persons'))))
     else Inr (Some persons))"

text \<open>Lines 205 to 219 and 274 to 288: validation, then the filter, then the trimming.\<close>

definition hasCommands :: "commandOptions list \<Rightarrow> string list \<Rightarrow> bool" where
  "hasCommands commands commandsToGive =
    list_ex (\<lambda>command. name command \<in> set commandsToGive) commands"

definition withoutAdminCommands :: "commandOptions list \<Rightarrow> string list \<Rightarrow> string list" where
  "withoutAdminCommands commands commandsToGive =
    (let adminCommands = map name (filter adminOnly commands)
     in map trim (filter (\<lambda>command. command \<notin> set adminCommands) commandsToGive))"

definition unknownCommands :: "string list \<Rightarrow> string" where
  "unknownCommands commandsToGive =
    ''Unknown command(s): '' @ [CHR 0x27] @ join '','' commandsToGive @ [CHR 0x27] @ ''.''"

definition forCommands :: "string \<Rightarrow> string list \<Rightarrow> string" where
  "forCommands msg commandsToGive =
    butlast msg @ [CHR 0x0A, CHR 0x0A] @ ''For command(s): '' @ [CHR 0x0A, CHR 0x0A, CHR 0x27]
      @ join '', '' commandsToGive @ [CHR 0x27] @ ''.''"

text \<open>The loops over the target users, lines 223 to 232 and 292 to 301.\<close>

fun grantEach ::
  "(string \<Rightarrow> threadAdmins) \<Rightarrow> string \<Rightarrow> string list \<Rightarrow> (string \<times> string) list
    \<Rightarrow> bot \<times> string \<times> mention list \<Rightarrow> error + (bot \<times> string \<times> mention list)" where
  "grantEach getThreadAdmins tid commandsToGive [] acc = Inr acc"
| "grantEach getThreadAdmins tid commandsToGive ((key, person) # rest) (b, msg, mentions') =
     (case addPermissionToUserInThread getThreadAdmins (stored b) tid key commandsToGive of
        Inl e \<Rightarrow> Inl e
      | Inr r \<Rightarrow>
          grantEach getThreadAdmins tid commandsToGive rest
            (persist r b, msg @ person @ '' '',
             mentions' @ [\<lparr>mention_id = key, tag = person\<rparr>]))"

fun revokeEach ::
  "string \<Rightarrow> string list \<Rightarrow> (string \<times> string) list
    \<Rightarrow> bot \<times> string \<times> mention list \<Rightarrow> error + (bot \<times> string \<times> mention list)" where
  "revokeEach tid commandsToRevoke [] acc = Inr acc"
| "revokeEach tid commandsToRevoke ((key, person) # rest) (b, msg, mentions') =
     (case removePermissionFromUserInThread (stored b) tid key commandsToRevoke of
        Inl e \<Rightarrow> Inl e
      | Inr r \<Rightarrow>
          revokeEach tid commandsToRevoke rest
            (persist r b, msg @ person @ '' '',
             mentions' @ [\<lparr>mention_id = key, tag = person\<rparr>]))"

definition grant ::
  "(string \<Rightarrow> threadAdmins) \<Rightarrow> (string \<Rightarrow> error + threadInfo) \<Rightarrow> matches \<Rightarrow> event
    \<Rightarrow> string list \<Rightarrow> commandOptions list \<Rightarrow> (string \<times> string) list \<Rightarrow> bot \<Rightarrow> error + bot" where
  "grant getThreadAdmins getThreadInfo matches event commandsToGive0 commands persons0 b =
    (let commandsToGive = expandAll commands commandsToGive0
     in case resolvePersons getThreadInfo matches event persons0 of
          Inl e \<Rightarrow> Inl e
        | Inr None \<Rightarrow>
            Inr (sendMessage
                  (Warning ''No person is being granted permission(s), please type @all or @person.'')
                  (threadID event) (messageID event) b)
        | Inr (Some persons) \<Rightarrow>
            if \<not> hasCommands commands commandsToGive then
              Inr (sendMessage (Warning (CHR '' '' # unknownCommands commandsToGive))
                    (threadID event) (messageID event) b)
            else
              (let commandsToGive' = withoutAdminCommands commands commandsToGive
               in case grantEach getThreadAdmins (threadID event) commandsToGive' persons
                         (b, ''Gave permission to: '' @ [CHR 0x0A, CHR 0x0A], []) of
                    Inl e \<Rightarrow> Inl e
                  | Inr (b', msg, mentions') \<Rightarrow>
                      Inr (sendMessage (RobotMentions (forCommands msg commandsToGive') mentions')
                            (threadID event) (messageID event) b')))"

definition revoke ::
  "(string \<Rightarrow> error + threadInfo) \<Rightarrow> matches \<Rightarrow> event
    \<Rightarrow> string list \<Rightarrow> commandOptions list \<Rightarrow> (string \<times> string) list \<Rightarrow> bot \<Rightarrow> error + bot" where
  "revoke getThreadInfo matches event commandsToRevoke0 commands persons0 b =
    (let commandsToRevoke = expandAll commands commandsToRevoke0
     in case resolvePersons getThreadInfo matches event persons0 of
          Inl e \<Rightarrow> Inl e
        | Inr None \<Rightarrow>
            Inr (sendMessage
                  (Warning ''No person is being revoked of permission(s), please type @all or @person.'')
                  (threadID event) (messageID event) b)
        | Inr (Some persons) \<Rightarrow>
            if \<not> hasCommands commands commandsToRevoke then
              Inr (sendMessage (Warning (unknownCommands commandsToRevoke))
                    (threadID event) (messageID event) b)
            else
              (let commandsToRevoke' = withoutAdminCommands commands commandsToRevoke
               in case revokeEach (threadID event) commandsToRevoke' persons
                         (b, ''Revoked permission to: '' @ [CHR 0x0A, CHR 0x0A], []) of
                    Inl e \<Rightarrow> Inl e
                  | Inr (b', msg, mentions') \<Rightarrow>
                      Inr (sendMessage (RobotMentions (forCommands msg commandsToRevoke') mentions')
                            (threadID event) (messageID event) b')))"

definition list_action :: "event \<Rightarrow> bot \<Rightarrow> error + bot" where
  "list_action event b =
    Inr (sendMessage (Robot ''This command is currently under development.'')
          (threadID event) (messageID event) b)"

definition execute ::
  "(string \<Rightarrow> threadAdmins) \<Rightarrow> (string \<Rightarrow> error + threadInfo) \<Rightarrow> matches \<Rightarrow> event
    \<Rightarrow> commandOptions list \<Rightarrow> bot \<Rightarrow> error + bot" where
  "execute getThreadAdmins getThreadInfo matches event commands b =
    (let action = m1 matches;
         commandsToGive = split CHR '','' (trim (m2 matches));
         persons = mentions event
     in if action = ''grant'' then
          grant getThreadAdmins getThreadInfo matches event commandsToGive commands persons b
        else if action = ''revoke'' then
          revoke getThreadInfo matches event commandsToGive commands persons b
        else if action = ''list'' then list_action event b
        else Inr b)"

text \<open>
  Example data: a command registry, an event, a bot state, and thread-info lookups that
  are rejected or miss a participant.
\<close>

definition registry :: "commandOptions list" where
  "registry = [\<lparr>name = ''meme'', adminOnly = False\<rparr>, \<lparr>name = ''ban'', adminOnly = True\<rparr>]"

definition bobEvent :: event where
  "bobEvent = \<lparr>threadID = ''T1'', messageID = ''M1'', mentions = [(''100'', ''@Bob'')]\<rparr>"

definition emptyBot :: bot where
  "emptyBot = \<lparr>stored = [], writes = 0, sent = []\<rparr>"

definition offline :: "string \<Rightarrow> error + threadInfo" where
  "offline tid = Inl NetworkError"

definition strangerInfo :: "string \<Rightarrow> error + threadInfo" where
  "strangerInfo tid = Inr \<lparr>participantIDs = [''P1''], userInfo = []\<rparr>"

section \<open>Properties of the Permission Store\<close>

lemma count_foldl:
  "foldl (\<lambda>count command. count + (if P command then 1 else 0)) (n::nat) cs
     = n + length (filter P cs)"
  by (induction cs arbitrary: n) auto

lemma length_filter_all: "(length (filter P cs) = length cs) = (\<forall>c\<in>set cs. P c)"
  by (metis filter_id_conv length_filter_less less_irrefl filter_True)

lemma count_all_iff:
  "(foldl (\<lambda>count command. count + (if command \<in> set perms then 1 else 0)) (0::nat) cs
      = length cs) = (set cs \<subseteq> set perms)"
  by (auto simp: count_foldl length_filter_all)

lemma getProperty_Some: "map_of obj k = Some v \<Longrightarrow> getProperty obj k = Own v"
  by (simp add: getProperty_def)

lemma getProperty_plain:
  "plain k \<Longrightarrow> getProperty obj k = (case map_of obj k of None \<Rightarrow> Undefined | Some v \<Rightarrow> Own v)"
  by (simp add: getProperty_def plain_def split: option.splits)

lemma getProperty_None:
  "map_of obj k = None \<Longrightarrow> getProperty obj k = (if plain k then Undefined else Inherited)"
  by (simp add: getProperty_def plain_def)

lemma userHasPermission_admin:
  "adminOrOwner (g t) u \<Longrightarrow> userHasPermission g d t u cs = Inr True"
  by (auto simp: userHasPermission_def adminOrOwner_def Let_def)

lemma userHasPermission_reads:
  "\<not> adminOrOwner (g t) u \<Longrightarrow>
   userHasPermission g d t u cs =
     (case getProperty d t of
        Undefined \<Rightarrow> Inr False
      | Inherited \<Rightarrow> Inl TypeError
      | Own th \<Rightarrow>
         (case users th of
            None \<Rightarrow> Inl TypeError
          | Some us \<Rightarrow>
             (case getProperty us u of
                Undefined \<Rightarrow> Inr False
              | Inherited \<Rightarrow> (if cs = [] then Inr True else Inl TypeError)
              | Own ur \<Rightarrow>
                 (case permissions ur of
                    None \<Rightarrow> (if cs = [] then Inr True else Inl TypeError)
                  | Some ps \<Rightarrow> Inr (set cs \<subseteq> set ps)))))"
  by (auto simp: userHasPermission_def adminOrOwner_def Let_def count_all_iff
           split: option.splits property.splits)

lemma userHasPermission_stored:
  "\<not> adminOrOwner (g t) u \<Longrightarrow> plain t \<Longrightarrow> plain u \<Longrightarrow>
   userHasPermission g d t u cs =
     (case map_of d t of
        None \<Rightarrow> Inr False
      | Some th \<Rightarrow>
         (case users th of
            None \<Rightarrow> Inl TypeError
          | Some us \<Rightarrow>
             (case map_of us u of
                None \<Rightarrow> Inr False
              | Some ur \<Rightarrow>
                 (case permissions ur of
                    None \<Rightarrow> (if cs = [] then Inr True else Inl TypeError)
                  | Some ps \<Rightarrow> Inr (set cs \<subseteq> set ps)))))"
  by (simp add: userHasPermission_reads getProperty_plain split: option.splits)

lemma userHasPermission_found:
  "\<not> adminOrOwner (g t) u \<Longrightarrow> map_of d t = Some th \<Longrightarrow> users th = Some us
   \<Longrightarrow> map_of us u = Some ur \<Longrightarrow> permissions ur = Some ps
   \<Longrightarrow> userHasPermission g d t u cs = Inr (set cs \<subseteq> set ps)"
  by (simp add: userHasPermission_reads getProperty_Some)

lemma userHasPermission_True_iff:
  assumes "plain u"
  shows "(userHasPermission g d t u cs = Inr True)
     = (adminOrOwner (g t) u \<or> (user_of d t u \<noteq> None \<and> set cs \<subseteq> set (held d t u)))"
proof (cases "adminOrOwner (g t) u")
  case True
  then show ?thesis by (simp add: userHasPermission_admin)
next
  case False
  show ?thesis
  proof (cases "map_of d t")
    case None
    with False show ?thesis
      by (simp add: userHasPermission_reads getProperty_None user_of_def)
  next
    case (Some th)
    with False assms show ?thesis
      by (auto simp: userHasPermission_reads getProperty_Some getProperty_plain user_of_def
                     held_def split: option.splits)
  qed
qed

lemma userHasPermission_total:
  assumes "invariant d" and "plain t" and "plain u"
  shows "\<exists>b. userHasPermission g d t u cs = Inr b"
proof (cases "adminOrOwner (g t) u")
  case True
  then show ?thesis by (auto simp: userHasPermission_admin)
next
  case False
  note stored = userHasPermission_stored [of g t u, OF False assms(2,3)]
  show ?thesis
  proof (cases "map_of d t")
    case None
    then show ?thesis by (auto simp: stored)
  next
    case (Some th)
    then have "(t, th) \<in> set d" by (rule map_of_SomeD)
    with assms(1) obtain us where us: "users th = Some us" and all: "complete_users us"
      by (auto simp: invariant_def split: option.splits)
    show ?thesis
    proof (cases "map_of us u")
      case None
      with Some us show ?thesis by (auto simp: stored)
    next
      case (Some ur)
      then have "(u, ur) \<in> set us" by (rule map_of_SomeD)
      with all obtain ps where "permissions ur = Some ps"
        by (auto simp: complete_users_def)
      with \<open>map_of d t = Some th\<close> us Some show ?thesis
        by (auto simp: stored)
    qed
  qed
qed

text \<open>
  C1, as stated, fails on ids that name a property of \<^verbatim>\<open>Object.prototype\<close>: on the empty
  document the thread id \<^verbatim>\<open>constructor\<close> makes the check throw for a user who is neither
  admin nor owner, although no Thread Record is stored; and for the user id
  \<^verbatim>\<open>constructor\<close>, who has no User Record, the check with no command returns true.
\<close>

theorem userHasPermission_inherited_counterexample:
  "\<not> adminOrOwner (noAdmins ''constructor'') ''U1''
   \<and> map_of ([] :: document) ''constructor'' = None
   \<and> userHasPermission noAdmins [] ''constructor'' ''U1'' [''meme''] = Inl TypeError
   \<and> \<not> adminOrOwner (noAdmins ''T1'') ''constructor''
   \<and> user_of memeDoc ''T1'' ''constructor'' = None
   \<and> userHasPermission noAdmins memeDoc ''T1'' ''constructor'' [] = Inr True"
  by (simp add: userHasPermission_def getProperty_def objectPrototypeNames_def
                adminOrOwner_def noAdmins_def memeDoc_def user_of_def)

text \<open>
  C1, amended. For a user id that does not name a property of \<^verbatim>\<open>Object.prototype\<close>,
  \<^verbatim>\<open>userHasPermission\<close> returns true exactly when the user is an admin of the thread or the
  bot owner (a failed admin lookup counting as no admins), or a User Record of the user
  is stored under the thread and every requested command name is in its permissions
  collection. For a user who is neither admin nor owner it returns false when the Thread
  Record is absent and the thread id names no such property either, and when the users
  mapping of the Thread Record has no User Record for the user. For such ids and on a
  document of the shape the store writes it always returns, without exception, the truth
  value of that condition.
\<close>

theorem userHasPermission_iff:
  "(plain u \<longrightarrow>
      (userHasPermission g d t u cs = Inr True)
        = (adminOrOwner (g t) u \<or> (user_of d t u \<noteq> None \<and> set cs \<subseteq> set (held d t u))))
   \<and> (\<not> adminOrOwner (g t) u \<longrightarrow> plain t \<longrightarrow> map_of d t = None
        \<longrightarrow> userHasPermission g d t u cs = Inr False)
   \<and> (\<not> adminOrOwner (g t) u \<longrightarrow> plain u
        \<longrightarrow> (\<exists>th us. map_of d t = Some th \<and> users th = Some us \<and> map_of us u = None)
        \<longrightarrow> userHasPermission g d t u cs = Inr False)
   \<and> (invariant d \<longrightarrow> plain t \<longrightarrow> plain u
        \<longrightarrow> userHasPermission g d t u cs
            = Inr (adminOrOwner (g t) u
                   \<or> (user_of d t u \<noteq> None \<and> set cs \<subseteq> set (held d t u))))"
proof (intro conjI impI)
  assume "plain u"
  then show "(userHasPermission g d t u cs = Inr True)
     = (adminOrOwner (g t) u \<or> (user_of d t u \<noteq> None \<and> set cs \<subseteq> set (held d t u)))"
    by (rule userHasPermission_True_iff)
next
  assume "\<not> adminOrOwner (g t) u" and "plain t" and "map_of d t = None"
  then show "userHasPermission g d t u cs = Inr False"
    by (simp add: userHasPermission_reads getProperty_None)
next
  assume "\<not> adminOrOwner (g t) u" and "plain u"
     and "\<exists>th us. map_of d t = Some th \<and> users th = Some us \<and> map_of us u = None"
  then show "userHasPermission g d t u cs = Inr False"
    by (auto simp: userHasPermission_reads getProperty_Some getProperty_None)
next
  assume "invariant d" and "plain t" and p: "plain u"
  then obtain b where b: "userHasPermission g d t u cs = Inr b"
    using userHasPermission_total by blast
  with userHasPermission_True_iff [OF p, of g d t cs]
  show "userHasPermission g d t u cs
            = Inr (adminOrOwner (g t) u
                   \<or> (user_of d t u \<noteq> None \<and> set cs \<subseteq> set (held d t u)))"
    by (cases b) auto
qed

theorem userHasPermission_iff_witness:
  "plain ''T1'' \<and> plain ''T2'' \<and> plain ''U1'' \<and> plain ''U2''
   \<and> \<not> adminOrOwner (noAdmins ''T1'') ''U1''
   \<and> userHasPermission noAdmins memeDoc ''T1'' ''U1'' [''meme''] = Inr True
   \<and> map_of memeDoc ''T2'' = None
   \<and> userHasPermission noAdmins memeDoc ''T2'' ''U1'' [''meme''] = Inr False
   \<and> (\<exists>th us. map_of memeDoc ''T1'' = Some th \<and> users th = Some us \<and> map_of us ''U2'' = None)
   \<and> userHasPermission noAdmins memeDoc ''T1'' ''U2'' [''meme''] = Inr False
   \<and> invariant memeDoc
   \<and> userHasPermission noAdmins memeDoc ''T1'' ''U1'' [''meme'', ''ban''] = Inr False"
  using userHasPermission_iff [of "''U1''" noAdmins memeDoc "''T1''" "[''meme'']"]
        userHasPermission_iff [of "''U1''" noAdmins memeDoc "''T2''" "[''meme'']"]
        userHasPermission_iff [of "''U2''" noAdmins memeDoc "''T1''" "[''meme'']"]
        userHasPermission_iff [of "''U1''" noAdmins memeDoc "''T1''" "[''meme'', ''ban'']"]
  by (simp add: adminOrOwner_def noAdmins_def memeDoc_def user_of_def held_def
                invariant_def complete_users_def plain_def objectPrototypeNames_def)

lemma userHasPermission_False_cases:
  assumes "userHasPermission g d t u cs = Inr False"
  shows "\<not> adminOrOwner (g t) u"
    and "getProperty d t \<noteq> Inherited"
    and "plain u \<Longrightarrow>
         map_of d t = None
         \<or> (\<exists>th us. map_of d t = Some th \<and> users th = Some us
               \<and> (map_of us u = None
                  \<or> (\<exists>ur ps. map_of us u = Some ur \<and> permissions ur = Some ps
                        \<and> \<not> set cs \<subseteq> set ps)))"
proof -
  show na: "\<not> adminOrOwner (g t) u"
    using assms userHasPermission_admin [of g t u d cs] by auto
  show "getProperty d t \<noteq> Inherited"
    using assms userHasPermission_reads [of g t u, OF na, of d cs]
    by (auto split: property.splits)
  show "map_of d t = None
         \<or> (\<exists>th us. map_of d t = Some th \<and> users th = Some us
               \<and> (map_of us u = None
                  \<or> (\<exists>ur ps. map_of us u = Some ur \<and> permissions ur = Some ps
                        \<and> \<not> set cs \<subseteq> set ps)))" if "plain u"
    using assms that userHasPermission_reads [of g t u, OF na, of d cs]
    by (cases "map_of d t")
       (auto simp: getProperty_Some getProperty_plain split: option.splits if_splits)
qed

lemma addPermissionToUserInThread_result:
  assumes f: "userHasPermission g d t u cs = Inr False" and p: "plain u"
  shows "addPermissionToUserInThread g d t u cs =
     Inr (True, Some
       (let thread = (case map_of d t of None \<Rightarrow> \<lparr>users = None, others = []\<rparr> | Some th \<Rightarrow> th);
            users' = (case users thread of None \<Rightarrow> [] | Some us \<Rightarrow> us);
            user = (case map_of users' u of None \<Rightarrow> \<lparr>permissions = None\<rparr> | Some ur \<Rightarrow> ur);
            perms = (case permissions user of None \<Rightarrow> [] | Some ps \<Rightarrow> ps)
        in AList.update t
             (thread\<lparr>users := Some (AList.update u (user\<lparr>permissions := Some (perms @ cs)\<rparr>)
                                    users')\<rparr>) d))"
proof (cases "map_of d t")
  case None
  with userHasPermission_False_cases(2) [OF f] have "getProperty d t = Undefined"
    by (simp add: getProperty_None split: if_splits)
  with None p show ?thesis
    by (simp add: addPermissionToUserInThread_def f Let_def getProperty_plain)
next
  case (Some th)
  then have "getProperty d t = Own th" by (rule getProperty_Some)
  with Some p show ?thesis
    by (simp add: addPermissionToUserInThread_def f Let_def getProperty_plain
             split: option.splits)
qed

lemma addPermissionToUserInThread_grant:
  assumes f: "userHasPermission g d t u cs = Inr False" and p: "plain u"
  shows "\<exists>d' th' us' ur'.
            addPermissionToUserInThread g d t u cs = Inr (True, Some d')
            \<and> map_of d' t = Some th' \<and> users th' = Some us' \<and> map_of us' u = Some ur'
            \<and> permissions ur' = Some (held d t u @ cs)
            \<and> others th' = (case map_of d t of None \<Rightarrow> [] | Some th \<Rightarrow> others th)
            \<and> (\<forall>u'. u' \<noteq> u \<longrightarrow> user_of d' t u' = user_of d t u')
            \<and> (\<forall>t'. t' \<noteq> t \<longrightarrow> map_of d' t' = map_of d t')"
  using userHasPermission_False_cases(3) [OF f p]
  by (auto simp: addPermissionToUserInThread_result [OF f p] Let_def held_def user_of_def
                 AList.update_conv')

text \<open>
  C2, as stated, fails on a user id that names a property of \<^verbatim>\<open>Object.prototype\<close>: on the
  empty document the check for \<^verbatim>\<open>constructor\<close> returns false and the call returns true, but
  the document written has an empty users mapping and no User Record.
\<close>

theorem addPermissionToUserInThread_inherited_counterexample:
  "userHasPermission noAdmins [] ''T1'' ''constructor'' [''meme''] = Inr False
   \<and> addPermissionToUserInThread noAdmins [] ''T1'' ''constructor'' [''meme'']
       = Inr (True, Some [(''T1'', \<lparr>users = Some [], others = []\<rparr>)])
   \<and> user_of [(''T1'', \<lparr>users = Some [], others = []\<rparr>)] ''T1'' ''constructor'' = None"
  by (simp add: userHasPermission_def addPermissionToUserInThread_def getProperty_def
                objectPrototypeNames_def noAdmins_def user_of_def Let_def)

text \<open>
  C2, amended. When \<^verbatim>\<open>userHasPermission\<close> holds for the same arguments (the user is admin
  or owner, or already holds all the requested commands), \<^verbatim>\<open>addPermissionToUserInThread\<close>
  returns false and does not write the file. When it does not hold and the user id does
  not name a property of \<^verbatim>\<open>Object.prototype\<close>, the call returns true and writes a document
  in which the Thread Record, its users mapping, the User Record and its permissions
  collection all exist, the collection being the old one (empty if there was none)
  followed by every requested command, repetitions kept; the other properties of the
  Thread Record, the other users of the thread and the other threads are as before. An
  exception of the permission check is passed on.
\<close>

theorem addPermissionToUserInThread_spec:
  "(userHasPermission g d t u cs = Inr True
      \<longrightarrow> addPermissionToUserInThread g d t u cs = Inr (False, None))
   \<and> (adminOrOwner (g t) u \<longrightarrow> addPermissionToUserInThread g d t u cs = Inr (False, None))
   \<and> (user_of d t u \<noteq> None \<and> set cs \<subseteq> set (held d t u)
      \<longrightarrow> addPermissionToUserInThread g d t u cs = Inr (False, None))
   \<and> (userHasPermission g d t u cs = Inr False \<and> plain u
      \<longrightarrow> (\<exists>d' th' us' ur'.
            addPermissionToUserInThread g d t u cs = Inr (True, Some d')
            \<and> map_of d' t = Some th' \<and> users th' = Some us' \<and> map_of us' u = Some ur'
            \<and> permissions ur' = Some (held d t u @ cs)
            \<and> others th' = (case map_of d t of None \<Rightarrow> [] | Some th \<Rightarrow> others th)
            \<and> (\<forall>u'. u' \<noteq> u \<longrightarrow> user_of d' t u' = user_of d t u')
            \<and> (\<forall>t'. t' \<noteq> t \<longrightarrow> map_of d' t' = map_of d t')))
   \<and> (\<forall>e. userHasPermission g d t u cs = Inl e
      \<longrightarrow> addPermissionToUserInThread g d t u cs = Inl e)"
proof (intro conjI impI allI)
  assume "userHasPermission g d t u cs = Inr True"
  then show "addPermissionToUserInThread g d t u cs = Inr (False, None)"
    by (simp add: addPermissionToUserInThread_def)
next
  assume "adminOrOwner (g t) u"
  then have "userHasPermission g d t u cs = Inr True"
    by (rule userHasPermission_admin)
  then show "addPermissionToUserInThread g d t u cs = Inr (False, None)"
    by (simp add: addPermissionToUserInThread_def)
next
  assume a: "user_of d t u \<noteq> None \<and> set cs \<subseteq> set (held d t u)"
  have "userHasPermission g d t u cs = Inr True"
  proof (cases "adminOrOwner (g t) u")
    case True
    then show ?thesis by (rule userHasPermission_admin)
  next
    case False
    from a obtain th us ur where th: "map_of d t = Some th" and us: "users th = Some us"
      and ur: "map_of us u = Some ur"
      by (auto simp: user_of_def split: option.splits)
    show ?thesis
    proof (cases "permissions ur")
      case None
      with a th us ur have "cs = []" by (simp add: held_def user_of_def)
      with False th us ur None show ?thesis
        by (simp add: userHasPermission_reads getProperty_Some)
    next
      case (Some ps)
      with a th us ur have "set cs \<subseteq> set ps" by (simp add: held_def user_of_def)
      with False th us ur Some show ?thesis
        by (simp add: userHasPermission_found)
    qed
  qed
  then show "addPermissionToUserInThread g d t u cs = Inr (False, None)"
    by (simp add: addPermissionToUserInThread_def)
next
  assume "userHasPermission g d t u cs = Inr False \<and> plain u"
  then have f: "userHasPermission g d t u cs = Inr False" and p: "plain u" by simp_all
  show "\<exists>d' th' us' ur'.
            addPermissionToUserInThread g d t u cs = Inr (True, Some d')
            \<and> map_of d' t = Some th' \<and> users th' = Some us' \<and> map_of us' u = Some ur'
            \<and> permissions ur' = Some (held d t u @ cs)
            \<and> others th' = (case map_of d t of None \<Rightarrow> [] | Some th \<Rightarrow> others th)
            \<and> (\<forall>u'. u' \<noteq> u \<longrightarrow> user_of d' t u' = user_of d t u')
            \<and> (\<forall>t'. t' \<noteq> t \<longrightarrow> map_of d' t' = map_of d t')"
    by (rule addPermissionToUserInThread_grant [OF f p])
next
  fix e
  assume "userHasPermission g d t u cs = Inl e"
  then show "addPermissionToUserInThread g d t u cs = Inl e"
    by (simp add: addPermissionToUserInThread_def)
qed

theorem addPermissionToUserInThread_spec_witness:
  "userHasPermission noAdmins memeDoc ''T1'' ''U1'' [''meme''] = Inr True
   \<and> user_of memeDoc ''T1'' ''U1'' \<noteq> None
   \<and> set [''meme''] \<subseteq> set (held memeDoc ''T1'' ''U1'')
   \<and> addPermissionToUserInThread noAdmins memeDoc ''T1'' ''U1'' [''meme''] = Inr (False, None)
   \<and> adminOrOwner (someAdmins ''T1'') ''A1''
   \<and> addPermissionToUserInThread someAdmins memeDoc ''T1'' ''A1'' [''ban''] = Inr (False, None)
   \<and> plain ''U1''
   \<and> userHasPermission noAdmins [] ''T1'' ''U1'' [''meme''] = Inr False
   \<and> addPermissionToUserInThread noAdmins [] ''T1'' ''U1'' [''meme''] = Inr (True, Some memeDoc)
   \<and> userHasPermission noAdmins memeDoc ''T1'' ''U1'' [''meme'', ''ban''] = Inr False
   \<and> addPermissionToUserInThread noAdmins memeDoc ''T1'' ''U1'' [''meme'', ''ban'']
       = Inr (True, Some [(''T1'', \<lparr>users = Some [(''U1'',
                \<lparr>permissions = Some [''meme'', ''meme'', ''ban'']\<rparr>)], others = []\<rparr>)])
   \<and> userHasPermission noAdmins [(''T1'', \<lparr>users = None, others = []\<rparr>)] ''T1'' ''U1'' [''meme'']
       = Inl TypeError
   \<and> addPermissionToUserInThread noAdmins [(''T1'', \<lparr>users = None, others = []\<rparr>)]
         ''T1'' ''U1'' [''meme''] = Inl TypeError"
  using addPermissionToUserInThread_spec [of noAdmins memeDoc "''T1''" "''U1''" "[''meme'']"]
        addPermissionToUserInThread_spec [of someAdmins memeDoc "''T1''" "''A1''" "[''ban'']"]
        addPermissionToUserInThread_spec [of noAdmins "[]" "''T1''" "''U1''" "[''meme'']"]
        addPermissionToUserInThread_spec [of noAdmins memeDoc "''T1''" "''U1''" "[''meme'', ''ban'']"]
        addPermissionToUserInThread_spec
          [of noAdmins "[(''T1'', \<lparr>users = None, others = []\<rparr>)]" "''T1''" "''U1''" "[''meme'']"]
  by (simp add: userHasPermission_def addPermissionToUserInThread_def getProperty_def
                objectPrototypeNames_def plain_def noAdmins_def
                someAdmins_def adminOrOwner_def memeDoc_def held_def user_of_def Let_def)




lemma delete_update_same: "AList.delete k (AList.update k v al) = AList.delete k al"
  by (induction al) auto

lemma removePermissionFromUserInThread_result:
  assumes th: "map_of d t = Some th" and us: "users th = Some us"
      and ur: "map_of us u = Some ur" and ps: "permissions ur = Some ps" and ne: "ps \<noteq> []"
  shows "removePermissionFromUserInThread d t u cs =
     Inr (True, Some
       (let ps' = filter (\<lambda>c. c \<notin> set cs) ps in
        if ps' \<noteq> [] then
          AList.update t (th\<lparr>users := Some (AList.update u (ur\<lparr>permissions := Some ps'\<rparr>) us)\<rparr>) d
        else if AList.delete u us \<noteq> [] then
          AList.update t (th\<lparr>users := Some (AList.delete u us)\<rparr>) d
        else if others th \<noteq> [] then AList.update t (th\<lparr>users := None\<rparr>) d
        else AList.delete t d))"
  using assms
  by (simp add: removePermissionFromUserInThread_def Let_def delete_update_same)



text \<open>
  C7. When the Thread Record, the users mapping, the User Record and the permissions
  collection exist and the user holds none of the commands to remove,
  \<^verbatim>\<open>removePermissionFromUserInThread\<close> returns true and the collection, the User Record and
  the whole stored document are as before.
\<close>

theorem removePermissionFromUserInThread_not_held:
  assumes "map_of d t = Some th" and "users th = Some us" and "map_of us u = Some ur"
      and "permissions ur = Some ps" and "set cs \<inter> set ps = {}"
  shows "\<exists>saved. removePermissionFromUserInThread d t u cs = Inr (True, saved)
           \<and> held (stored_after d (True, saved)) t u = ps
           \<and> user_of (stored_after d (True, saved)) t u = Some ur
           \<and> stored_after d (True, saved) = d"
proof (cases "ps = []")
  case True
  with assms have "removePermissionFromUserInThread d t u cs = Inr (True, None)"
    by (simp add: removePermissionFromUserInThread_def)
  with assms show ?thesis
    by (simp add: stored_after_def held_def user_of_def)
next
  case False
  from assms(5) have keep: "filter (\<lambda>c. c \<notin> set cs) ps = ps"
    by (auto simp: filter_id_conv)
  have "removePermissionFromUserInThread d t u cs = Inr (True, Some d)"
    using removePermissionFromUserInThread_result [OF assms(1-4) False, of cs] assms(1-4) False
    by (simp add: keep Let_def AList.update_triv)
  with assms show ?thesis
    by (simp add: stored_after_def held_def user_of_def)
qed

theorem removePermissionFromUserInThread_not_held_witness:
  "map_of memeDoc ''T1'' = Some \<lparr>users = Some [(''U1'', \<lparr>permissions = Some [''meme'']\<rparr>)], others = []\<rparr>
   \<and> set [''ban''] \<inter> set [''meme''] = {}
   \<and> removePermissionFromUserInThread memeDoc ''T1'' ''U1'' [''ban''] = Inr (True, Some memeDoc)
   \<and> held (stored_after memeDoc (True, Some memeDoc)) ''T1'' ''U1'' = [''meme'']"
  using removePermissionFromUserInThread_not_held
          [of memeDoc "''T1''" "\<lparr>users = Some [(''U1'', \<lparr>permissions = Some [''meme'']\<rparr>)], others = []\<rparr>"
              "[(''U1'', \<lparr>permissions = Some [''meme'']\<rparr>)]" "''U1''"
              "\<lparr>permissions = Some [''meme'']\<rparr>" "[''meme'']" "[''ban'']"]
  by (simp add: removePermissionFromUserInThread_def memeDoc_def user_of_def held_def
                stored_after_def Let_def)

text \<open>
  C10, as stated, fails on ids that name a property of \<^verbatim>\<open>Object.prototype\<close>: on the empty
  document the call with no command for the user id \<^verbatim>\<open>constructor\<close> returns true but the
  document written has no User Record, and for the thread id \<^verbatim>\<open>constructor\<close> it throws.
\<close>

theorem addPermissionToUserInThread_no_commands_counterexample:
  "\<not> adminOrOwner (noAdmins ''T1'') ''constructor''
   \<and> user_of [] ''T1'' ''constructor'' = None
   \<and> addPermissionToUserInThread noAdmins [] ''T1'' ''constructor'' []
       = Inr (True, Some [(''T1'', \<lparr>users = Some [], others = []\<rparr>)])
   \<and> user_of [(''T1'', \<lparr>users = Some [], others = []\<rparr>)] ''T1'' ''constructor'' = None
   \<and> \<not> adminOrOwner (noAdmins ''constructor'') ''U1''
   \<and> user_of [] ''constructor'' ''U1'' = None
   \<and> addPermissionToUserInThread noAdmins [] ''constructor'' ''U1'' [] = Inl TypeError"
  by (simp add: userHasPermission_def addPermissionToUserInThread_def getProperty_def
                objectPrototypeNames_def adminOrOwner_def noAdmins_def user_of_def Let_def)

text \<open>
  C10, amended. With no command at all, \<^verbatim>\<open>addPermissionToUserInThread\<close> for a thread id
  and a user id that do not name a property of \<^verbatim>\<open>Object.prototype\<close>, the user being neither
  admin nor owner and having no User Record (the Thread Record is absent, or its users
  mapping has no entry for the user), returns true and writes a User Record with an empty
  permissions collection; for a user whose record exists it returns false and writes
  nothing. The command handler makes such a call: granting only the administrator-only
  command \<^verbatim>\<open>ban\<close> stores an empty User Record for the mentioned user.
\<close>

theorem addPermissionToUserInThread_no_commands:
  "(\<not> adminOrOwner (g t) u \<longrightarrow> plain t \<longrightarrow> plain u
      \<longrightarrow> (map_of d t = None
           \<or> (\<exists>th us. map_of d t = Some th \<and> users th = Some us \<and> map_of us u = None))
      \<longrightarrow> (\<exists>d' ur'. addPermissionToUserInThread g d t u [] = Inr (True, Some d')
             \<and> user_of d' t u = Some ur' \<and> permissions ur' = Some []))
   \<and> (user_of d t u \<noteq> None \<longrightarrow> addPermissionToUserInThread g d t u [] = Inr (False, None))
   \<and> (case execute noAdmins offline
             \<lparr>m0 = ''permission grant ban @Bob'', m1 = ''grant'', m2 = ''ban ''\<rparr>
             bobEvent registry emptyBot of
         Inl e \<Rightarrow> None
       | Inr b \<Rightarrow> Some (stored b))
      = Some [(''T1'', \<lparr>users = Some [(''100'', \<lparr>permissions = Some []\<rparr>)], others = []\<rparr>)]"
proof (intro conjI impI)
  show "(case execute noAdmins offline
             \<lparr>m0 = ''permission grant ban @Bob'', m1 = ''grant'', m2 = ''ban ''\<rparr>
             bobEvent registry emptyBot of
         Inl e \<Rightarrow> None
       | Inr b \<Rightarrow> Some (stored b))
      = Some [(''T1'', \<lparr>users = Some [(''100'', \<lparr>permissions = Some []\<rparr>)], others = []\<rparr>)]"
    by (simp add: execute_def grant_def registry_def bobEvent_def emptyBot_def noAdmins_def
                  trim_def is_space_def expandAll_def resolvePersons_def hasCommands_def
                  withoutAdminCommands_def userHasPermission_def getProperty_def
                  objectPrototypeNames_def
                  addPermissionToUserInThread_def persist_def sendMessage_def Let_def)
next
  assume na: "\<not> adminOrOwner (g t) u" and pt: "plain t" and pu: "plain u"
     and ab: "map_of d t = None
           \<or> (\<exists>th us. map_of d t = Some th \<and> users th = Some us \<and> map_of us u = None)"
  then have f: "userHasPermission g d t u [] = Inr False"
    by (auto simp: userHasPermission_stored)
  from ab show "\<exists>d' ur'. addPermissionToUserInThread g d t u [] = Inr (True, Some d')
             \<and> user_of d' t u = Some ur' \<and> permissions ur' = Some []"
    by (auto simp: addPermissionToUserInThread_result [OF f pu] Let_def user_of_def
                   AList.update_conv')
next
  assume a: "user_of d t u \<noteq> None"
  have "userHasPermission g d t u [] = Inr True"
  proof (cases "adminOrOwner (g t) u")
    case True
    then show ?thesis by (rule userHasPermission_admin)
  next
    case False
    with a show ?thesis
      by (auto simp: userHasPermission_reads getProperty_Some user_of_def
               split: option.splits)
  qed
  then show "addPermissionToUserInThread g d t u [] = Inr (False, None)"
    by (simp add: addPermissionToUserInThread_def)
qed

theorem addPermissionToUserInThread_no_commands_witness:
  "\<not> adminOrOwner (noAdmins ''T1'') ''U2'' \<and> plain ''T1'' \<and> plain ''U2''
   \<and> map_of [] ''T1'' = (None :: thread_record option)
   \<and> addPermissionToUserInThread noAdmins [] ''T1'' ''U2'' []
       = Inr (True, Some [(''T1'', \<lparr>users = Some [(''U2'', \<lparr>permissions = Some []\<rparr>)], others = []\<rparr>)])
   \<and> addPermissionToUserInThread noAdmins memeDoc ''T1'' ''U2'' []
       = Inr (True, Some [(''T1'', \<lparr>users = Some [(''U1'', \<lparr>permissions = Some [''meme'']\<rparr>),
                                                  (''U2'', \<lparr>permissions = Some []\<rparr>)], others = []\<rparr>)])
   \<and> user_of memeDoc ''T1'' ''U1'' \<noteq> None
   \<and> addPermissionToUserInThread noAdmins memeDoc ''T1'' ''U1'' [] = Inr (False, None)"
  using addPermissionToUserInThread_no_commands [of noAdmins "''T1''" "''U2''" "[]"]
        addPermissionToUserInThread_no_commands [of noAdmins "''T1''" "''U2''" memeDoc]
        addPermissionToUserInThread_no_commands [of noAdmins "''T1''" "''U1''" memeDoc]
  by (simp add: userHasPermission_def addPermissionToUserInThread_def getProperty_def
                objectPrototypeNames_def plain_def noAdmins_def
                adminOrOwner_def memeDoc_def user_of_def Let_def)

lemma addPermissionToUserInThread_total:
  "invariant d \<Longrightarrow> plain t \<Longrightarrow> plain u \<Longrightarrow> \<exists>r. addPermissionToUserInThread g d t u cs = Inr r"
proof -
  assume "invariant d" and "plain t" and p: "plain u"
  then obtain b where b: "userHasPermission g d t u cs = Inr b"
    using userHasPermission_total by blast
  show ?thesis
  proof (cases b)
    case True
    with b have "addPermissionToUserInThread g d t u cs = Inr (False, None)"
      by (simp add: addPermissionToUserInThread_def)
    then show ?thesis by blast
  next
    case False
    with b have "userHasPermission g d t u cs = Inr False" by simp
    from addPermissionToUserInThread_result [OF this p] show ?thesis by blast
  qed
qed

text \<open>
  C4, as stated, fails on a thread id that names a property of \<^verbatim>\<open>Object.prototype\<close>: for a
  user who is neither admin nor owner both calls throw, on the empty document already.
\<close>

theorem add_then_userHasPermission_counterexample:
  "\<not> adminOrOwner (noAdmins ''constructor'') ''U1''
   \<and> addPermissionToUserInThread noAdmins [] ''constructor'' ''U1'' [''meme''] = Inl TypeError
   \<and> userHasPermission noAdmins [] ''constructor'' ''U1'' [''meme''] = Inl TypeError"
  by (simp add: userHasPermission_def addPermissionToUserInThread_def getProperty_def
                objectPrototypeNames_def adminOrOwner_def noAdmins_def)

text \<open>
  C4, amended. For a user id that does not name a property of \<^verbatim>\<open>Object.prototype\<close>:
  whenever \<^verbatim>\<open>addPermissionToUserInThread\<close> returns, whether it granted or did nothing,
  \<^verbatim>\<open>userHasPermission\<close> with the same arguments on the document then stored returns true;
  and when the thread id names no such property either, the call does return on every
  document of the shape the store writes.
\<close>

theorem add_then_userHasPermission:
  "(plain u \<longrightarrow>
      (\<forall>r. addPermissionToUserInThread g d t u cs = Inr r
           \<longrightarrow> userHasPermission g (stored_after d r) t u cs = Inr True))
   \<and> (invariant d \<longrightarrow> plain t \<longrightarrow> plain u
        \<longrightarrow> (\<exists>r. addPermissionToUserInThread g d t u cs = Inr r))"
proof (intro conjI allI impI)
  fix r
  assume p: "plain u" and a: "addPermissionToUserInThread g d t u cs = Inr r"
  show "userHasPermission g (stored_after d r) t u cs = Inr True"
  proof (cases "userHasPermission g d t u cs")
    case (Inl e)
    with a show ?thesis by (simp add: addPermissionToUserInThread_def)
  next
    case (Inr b)
    show ?thesis
    proof (cases b)
      case True
      with Inr a show ?thesis
        by (auto simp: addPermissionToUserInThread_def stored_after_def)
    next
      case False
      with Inr have f: "userHasPermission g d t u cs = Inr False" by simp
      note na = userHasPermission_False_cases(1) [OF f]
      from addPermissionToUserInThread_grant [OF f p] a
      obtain d' th' us' ur' where "r = (True, Some d')" "map_of d' t = Some th'"
        "users th' = Some us'" "map_of us' u = Some ur'"
        "permissions ur' = Some (held d t u @ cs)"
        by auto
      with na show ?thesis
        by (simp add: stored_after_def userHasPermission_found)
    qed
  qed
next
  assume "invariant d" and "plain t" and "plain u"
  then show "\<exists>r. addPermissionToUserInThread g d t u cs = Inr r"
    by (rule addPermissionToUserInThread_total)
qed

theorem add_then_userHasPermission_witness:
  "plain ''T1'' \<and> plain ''U1'' \<and> plain ''A1''
   \<and> addPermissionToUserInThread noAdmins [] ''T1'' ''U1'' [''meme''] = Inr (True, Some memeDoc)
   \<and> userHasPermission noAdmins (stored_after [] (True, Some memeDoc)) ''T1'' ''U1'' [''meme'']
       = Inr True
   \<and> addPermissionToUserInThread someAdmins memeDoc ''T1'' ''A1'' [''meme''] = Inr (False, None)
   \<and> userHasPermission someAdmins (stored_after memeDoc (False, None)) ''T1'' ''A1'' [''meme'']
       = Inr True
   \<and> invariant memeDoc"
  using add_then_userHasPermission [of "''U1''" noAdmins "[]" "''T1''" "[''meme'']"]
        add_then_userHasPermission [of "''A1''" someAdmins memeDoc "''T1''" "[''meme'']"]
  by (simp add: userHasPermission_def addPermissionToUserInThread_def getProperty_def
                objectPrototypeNames_def plain_def noAdmins_def
                someAdmins_def memeDoc_def stored_after_def invariant_def complete_users_def
                Let_def)

lemma set_update_subset: "set (AList.update k v al) \<subseteq> insert (k, v) (set al)"
  by (induction al) auto

lemma set_delete_subset: "set (AList.delete k al) \<subseteq> set al"
  by (induction al) auto

lemma complete_users_update:
  "complete_users us \<Longrightarrow> permissions ur \<noteq> None \<Longrightarrow> complete_users (AList.update u ur us)"
  using set_update_subset [of u ur us] unfolding complete_users_def by blast

lemma complete_users_delete: "complete_users us \<Longrightarrow> complete_users (AList.delete u us)"
  using set_delete_subset [of u us] unfolding complete_users_def by blast

lemma invariant_update:
  assumes "invariant d" and "others th = []" and "users th = Some us" and "us \<noteq> []"
      and "complete_users us"
  shows "invariant (AList.update t th d)"
  unfolding invariant_def
proof (intro ballI)
  fix x
  assume "x \<in> set (AList.update t th d)"
  with set_update_subset [of t th d] have "x = (t, th) \<or> x \<in> set d" by blast
  with assms show "case x of (t, th) \<Rightarrow> others th = []
       \<and> (case users th of None \<Rightarrow> False | Some us \<Rightarrow> us \<noteq> [] \<and> complete_users us)"
    unfolding invariant_def by auto
qed

lemma invariant_delete: "invariant d \<Longrightarrow> invariant (AList.delete t d)"
  using set_delete_subset [of t d] unfolding invariant_def by blast

lemma invariant_thread:
  assumes "invariant d" and "map_of d t = Some th"
  shows "others th = [] \<and> (\<exists>us. users th = Some us \<and> us \<noteq> [] \<and> complete_users us)"
proof -
  from assms(2) have "(t, th) \<in> set d" by (rule map_of_SomeD)
  with assms(1) show ?thesis
    by (auto simp: invariant_def split: option.splits)
qed

lemma invariant_add:
  assumes inv: "invariant d" and a: "addPermissionToUserInThread g d t u cs = Inr r"
      and p: "plain u"
  shows "invariant (stored_after d r)"
proof (cases "userHasPermission g d t u cs = Inr False")
  case False
  with a have "snd r = None"
    by (auto simp: addPermissionToUserInThread_def split: sum.splits bool.splits)
  with inv show ?thesis by (simp add: stored_after_def)
next
  case True
  define th0 where "th0 = (case map_of d t of None \<Rightarrow> \<lparr>users = None, others = []\<rparr> | Some th \<Rightarrow> th)"
  define us0 where "us0 = (case users th0 of None \<Rightarrow> [] | Some us \<Rightarrow> us)"
  define ur0 where "ur0 = (case map_of us0 u of None \<Rightarrow> \<lparr>permissions = None\<rparr> | Some ur \<Rightarrow> ur)"
  define ps0 where "ps0 = (case permissions ur0 of None \<Rightarrow> [] | Some ps \<Rightarrow> ps)"
  define us1 where "us1 = AList.update u (ur0\<lparr>permissions := Some (ps0 @ cs)\<rparr>) us0"
  from a addPermissionToUserInThread_result [OF True p]
  have r: "r = (True, Some (AList.update t (th0\<lparr>users := Some us1\<rparr>) d))"
    by (simp add: Let_def th0_def us0_def ur0_def ps0_def us1_def)
  have o: "others th0 = []"
    using invariant_thread [OF inv] by (auto simp: th0_def split: option.splits)
  have old: "complete_users us0"
  proof (cases "map_of d t")
    case None
    then show ?thesis by (simp add: th0_def us0_def complete_users_def)
  next
    case (Some th)
    with invariant_thread [OF inv Some] show ?thesis
      by (auto simp: th0_def us0_def)
  qed
  have new: "complete_users us1"
    unfolding us1_def by (rule complete_users_update [OF old]) simp
  have ne1: "us1 \<noteq> []" by (simp add: us1_def)
  have "invariant (AList.update t (th0\<lparr>users := Some us1\<rparr>) d)"
    by (rule invariant_update [OF inv, where us = us1]) (simp_all add: o new ne1)
  then show ?thesis by (simp add: r stored_after_def)
qed

lemma invariant_remove:
  assumes inv: "invariant d" and a: "removePermissionFromUserInThread d t u cs = Inr r"
  shows "invariant (stored_after d r)"
proof (cases "\<exists>th us ur ps. map_of d t = Some th \<and> users th = Some us \<and> map_of us u = Some ur
                 \<and> permissions ur = Some ps \<and> ps \<noteq> []")
  case False
  with a have "snd r = None"
    by (auto simp: removePermissionFromUserInThread_def split: option.splits if_splits)
  with inv show ?thesis by (simp add: stored_after_def)
next
  case True
  then obtain th us ur ps where th: "map_of d t = Some th" and us: "users th = Some us"
    and ur: "map_of us u = Some ur" and ps: "permissions ur = Some ps" and ne: "ps \<noteq> []"
    by blast
  define ps' where "ps' = filter (\<lambda>c. c \<notin> set cs) ps"
  define us1 where "us1 = AList.update u (ur\<lparr>permissions := Some ps'\<rparr>) us"
  from invariant_thread [OF inv th] us
  have o: "others th = []" and all: "complete_users us"
    by auto
  have upd: "complete_users us1"
    unfolding us1_def by (rule complete_users_update [OF all]) simp
  have del: "complete_users (AList.delete u us)"
    by (rule complete_users_delete [OF all])
  from removePermissionFromUserInThread_result [OF th us ur ps ne, of cs] a
  have r: "r = (True, Some
       (if ps' \<noteq> [] then AList.update t (th\<lparr>users := Some us1\<rparr>) d
        else if AList.delete u us \<noteq> [] then
          AList.update t (th\<lparr>users := Some (AList.delete u us)\<rparr>) d
        else AList.delete t d))"
    by (simp add: Let_def ps'_def us1_def o)
  have ne1: "us1 \<noteq> []" by (simp add: us1_def)
  have 1: "invariant (AList.update t (th\<lparr>users := Some us1\<rparr>) d)"
    by (rule invariant_update [OF inv, where us = us1]) (simp_all add: o upd ne1)
  have 2: "AList.delete u us \<noteq> [] \<Longrightarrow>
     invariant (AList.update t (th\<lparr>users := Some (AList.delete u us)\<rparr>) d)"
    by (rule invariant_update [OF inv, where us = "AList.delete u us"]) (simp_all add: o del)
  show ?thesis
    using 1 2 invariant_delete [OF inv, of t] by (simp add: r stored_after_def)
qed

lemma removePermissionFromUserInThread_total:
  "\<exists>r. removePermissionFromUserInThread d t u cs = Inr r"
  by (auto simp: removePermissionFromUserInThread_def Let_def split: option.splits)

lemma run_invariant:
  "invariant d \<Longrightarrow> \<forall>c \<in> set calls. plain_call c
   \<Longrightarrow> \<exists>d'. run calls d = Inr d' \<and> invariant d'"
proof (induction calls arbitrary: d)
  case Nil
  then show ?case by simp
next
  case (Cons c calls)
  have "\<exists>r. perform c d = Inr r \<and> invariant (stored_after d r)"
  proof (cases c)
    case (Add g t u cs)
    with Cons.prems have pt: "plain t" and pu: "plain u" by simp_all
    from addPermissionToUserInThread_total [OF Cons.prems(1) pt pu, of g cs]
    obtain r where r: "addPermissionToUserInThread g d t u cs = Inr r" by blast
    from invariant_add [OF Cons.prems(1) r pu] r Add show ?thesis by simp
  next
    case (Remove t u cs)
    with Cons.prems removePermissionFromUserInThread_total [of d t u cs] show ?thesis
      by (auto intro: invariant_remove)
  qed
  then obtain r where "perform c d = Inr r" and "invariant (stored_after d r)" by blast
  with Cons.IH [of "stored_after d r"] Cons.prems(2) show ?case by auto
qed

text \<open>
  C9, as stated, fails: one grant from the empty document to the user id \<^verbatim>\<open>constructor\<close>,
  which names a property of \<^verbatim>\<open>Object.prototype\<close>, writes a Thread Record whose users
  mapping is empty.
\<close>

theorem reachable_documents_counterexample:
  "run [Add noAdmins ''T1'' ''constructor'' [''meme'']] []
     = Inr [(''T1'', \<lparr>users = Some [], others = []\<rparr>)]
   \<and> \<not> invariant [(''T1'', \<lparr>users = Some [], others = []\<rparr>)]"
  by (simp add: userHasPermission_def addPermissionToUserInThread_def getProperty_def
                objectPrototypeNames_def noAdmins_def stored_after_def invariant_def Let_def)

text \<open>
  C9, amended. Every sequence of \<^verbatim>\<open>addPermissionToUserInThread\<close> and
  \<^verbatim>\<open>removePermissionFromUserInThread\<close> calls from the empty document, in which no grant
  has a thread id or a user id that names a property of \<^verbatim>\<open>Object.prototype\<close>, runs without
  exception and ends in a document where every Thread Record has a users mapping with at
  least one User Record (and no other property) and every User Record has a permissions
  collection; on such a document \<^verbatim>\<open>userHasPermission\<close>, for ids that name no such
  property, never reads a property of \<^verbatim>\<open>undefined\<close>.
\<close>

theorem reachable_documents_invariant:
  "(\<forall>c \<in> set calls. plain_call c)
   \<longrightarrow> (\<exists>d. run calls [] = Inr d \<and> invariant d
          \<and> (\<forall>g t u cs. plain t \<longrightarrow> plain u \<longrightarrow> (\<exists>b. userHasPermission g d t u cs = Inr b)))"
proof
  assume p: "\<forall>c \<in> set calls. plain_call c"
  have "invariant []" by (simp add: invariant_def)
  from run_invariant [OF this p] obtain d where "run calls [] = Inr d" "invariant d"
    by blast
  then show "\<exists>d. run calls [] = Inr d \<and> invariant d
          \<and> (\<forall>g t u cs. plain t \<longrightarrow> plain u \<longrightarrow> (\<exists>b. userHasPermission g d t u cs = Inr b))"
    using userHasPermission_total by blast
qed

theorem reachable_documents_invariant_witness:
  "plain_call (Add noAdmins ''T1'' ''U1'' [''meme''])
   \<and> plain_call (Remove ''T1'' ''U1'' [''meme''])
   \<and> run [Add noAdmins ''T1'' ''U1'' [''meme'']] [] = Inr memeDoc
   \<and> invariant memeDoc
   \<and> run [Add noAdmins ''T1'' ''U1'' [''meme''], Remove ''T1'' ''U1'' [''meme'']] [] = Inr []
   \<and> userHasPermission noAdmins memeDoc ''T1'' ''U1'' [''ban''] = Inr False"
  using reachable_documents_invariant [of "[Add noAdmins ''T1'' ''U1'' [''meme'']]"]
        reachable_documents_invariant
          [of "[Add noAdmins ''T1'' ''U1'' [''meme''], Remove ''T1'' ''U1'' [''meme'']]"]
  by (simp add: userHasPermission_def addPermissionToUserInThread_def getProperty_def
                objectPrototypeNames_def plain_def
                removePermissionFromUserInThread_def noAdmins_def
                memeDoc_def stored_after_def invariant_def complete_users_def Let_def)

section \<open>Properties of the settings file\<close>

subsection \<open>Strings\<close>

lemma hexValue_hexDigit: "n < 16 \<Longrightarrow> hexValue (hexDigit n) = Some n"
  by (auto simp: hexValue_def hexDigit_def Let_def)

lemma mapParsed_simps [simp]:
  "mapParsed f (Parsed x rest) = Parsed (f x) rest"
  "mapParsed f Rejected = Rejected"
  "mapParsed f Unmodelled = Unmodelled"
  by (simp_all add: mapParsed_def)

lemma mapParsed_eq_Parsed [simp]:
  "(mapParsed f r = Parsed y rest) = (\<exists>x. r = Parsed x rest \<and> y = f x)"
  by (cases r) auto

lemma JSONStringCharacters_quoteChar:
  "JSONStringCharacters (quoteChar c @ str) = mapParsed (Cons c) (JSONStringCharacters str)"
proof (cases "(of_char c :: nat) < 32")
  case False
  then show ?thesis
    by (auto simp: quoteChar_def unescape_def)
next
  case True
  have d: "(of_char c :: nat) div 16 < 16" and m: "(of_char c :: nat) mod 16 < 16"
    using True by simp_all
  have z: "hexValue (CHR ''0'') = Some 0"
    by (simp add: hexValue_def)
  have again: "char_of ((of_char c :: nat) div 16 * 16 + of_char c mod 16) = c"
    by simp
  show ?thesis
    using True again
    by (auto simp: quoteChar_def unescape_def hexValue_hexDigit [OF d] hexValue_hexDigit [OF m] z)
qed

lemma JSONStringCharacters_quote:
  "JSONStringCharacters (concat (map quoteChar s) @ CHR 0x22 # rest) = Parsed s rest"
  by (induction s) (simp_all add: JSONStringCharacters_quoteChar)

subsection \<open>The order of the keys\<close>

lemma update_absent: "k \<notin> fst ` set obj \<Longrightarrow> AList.update k v obj = obj @ [(k, v)]"
  by (induction obj) auto

lemma keysInOrder_prefix: "keysInOrder (xs @ ys) \<Longrightarrow> keysInOrder xs"
  by (induction xs) (auto split: option.splits simp: list_all_iff)

lemma keysInOrder_distinct: "keysInOrder ks \<Longrightarrow> distinct ks"
  by (induction ks) auto

lemma insertIndexed_append:
  "arrayIndex k = Some i \<Longrightarrow> keysInOrder (map fst obj @ [k])
    \<Longrightarrow> insertIndexed i (k, v) obj = obj @ [(k, v)]"
  by (induction obj) (auto split: option.splits)

lemma CreateDataProperty_append:
  assumes "keysInOrder (map fst obj @ [k])"
  shows "CreateDataProperty k v obj = obj @ [(k, v)]"
proof -
  have "distinct (map fst obj @ [k])"
    using assms by (rule keysInOrder_distinct)
  then have "k \<notin> fst ` set obj"
    by auto
  then show ?thesis
    using assms
    by (auto simp: CreateDataProperty_def update_absent insertIndexed_append split: option.splits)
qed

lemma arrayIndex_inject: "arrayIndex k = Some i \<Longrightarrow> arrayIndex k' = Some i \<Longrightarrow> k = k'"
  by (auto simp: arrayIndex_def Let_def split: if_splits)

lemma map_fst_update_present:
  "k \<in> fst ` set obj \<Longrightarrow> map fst (AList.update k v obj) = map fst obj"
  by (induction obj) auto

lemma keysInOrder_snoc_named:
  "arrayIndex k = None \<Longrightarrow> k \<notin> set ks \<Longrightarrow> keysInOrder ks \<Longrightarrow> keysInOrder (ks @ [k])"
  by (induction ks) (auto split: option.splits)

lemma set_insertIndexed: "set (insertIndexed i p obj) = insert p (set obj)"
  by (induction obj) (auto split: option.splits)

lemma keysInOrder_insertIndexed:
  "arrayIndex k = Some i \<Longrightarrow> k \<notin> fst ` set obj \<Longrightarrow> keysInOrder (map fst obj)
    \<Longrightarrow> keysInOrder (map fst (insertIndexed i (k, v) obj))"
proof (induction obj)
  case Nil
  then show ?case by simp
next
  case (Cons q obj)
  have ne: "fst q \<noteq> k" and notin: "k \<notin> fst ` set obj"
    using Cons.prems(2) by auto
  have rest: "keysInOrder (map fst (insertIndexed i (k, v) obj))"
    using Cons.IH Cons.prems notin by simp
  show ?case
  proof (cases "arrayIndex (fst q)")
    case None
    then show ?thesis
      using Cons.prems ne notin by (auto simp: list_all_iff split: option.splits)
  next
    case (Some j)
    have "j \<noteq> i"
      using arrayIndex_inject [OF Some, of k] Cons.prems(1) ne by auto
    then show ?thesis
      using Some Cons.prems ne notin rest
      by (fastforce simp: list_all_iff set_insertIndexed split: option.splits)
  qed
qed

lemma keysInOrder_CreateDataProperty:
  "keysInOrder (map fst obj) \<Longrightarrow> keysInOrder (map fst (CreateDataProperty k v obj))"
  by (cases "k \<in> fst ` set obj")
    (auto simp: CreateDataProperty_def map_fst_update_present update_absent
      keysInOrder_snoc_named keysInOrder_insertIndexed split: option.splits)

lemma wellFormedMembers_iff: "wellFormedMembers ms = (\<forall>m\<in>set ms. wellFormed (snd m))"
  by (induction ms) auto

lemma wellFormedMembers_CreateDataProperty:
  assumes "wellFormed v" and "wellFormedMembers obj"
  shows "wellFormedMembers (CreateDataProperty k v obj)"
proof -
  have "set (CreateDataProperty k v obj) \<subseteq> insert (k, v) (set obj)"
    using set_update_subset [of k v obj]
    by (auto simp: CreateDataProperty_def set_insertIndexed split: option.splits)
  then show ?thesis
    using assms by (auto simp: wellFormedMembers_iff)
qed

subsection \<open>What JSON.parse returns is well formed\<close>

lemma JSONValue_Parsed:
  assumes "JSONValue (Suc n) str = Parsed v rest"
  shows "v = JNull \<or> (\<exists>b. v = JBool b) \<or> (\<exists>s. v = JString s) \<or> v = JArray [] \<or> v = JObject []
    \<or> (\<exists>vs r. v = JArray vs \<and> JSONElements n r = Parsed vs rest)
    \<or> (\<exists>ms r. v = JObject ms \<and> JSONMembers n [] r = Parsed ms rest)"
proof (cases "skipSpace str")
  case Nil
  then show ?thesis
    using assms by simp
next
  case (Cons c cs)
  show ?thesis
  proof (cases "skipSpace cs")
    case Nil
    then show ?thesis
      using assms Cons by (simp split: if_splits) blast+
  next
    case (Cons c' cs')
    then show ?thesis
      using assms \<open>skipSpace str = c # cs\<close> by (simp split: if_splits) blast+
  qed
qed

lemma JSONElements_Parsed:
  assumes "JSONElements (Suc n) str = Parsed vs rest"
  shows "\<exists>v r. JSONValue n str = Parsed v r
    \<and> (vs = [v] \<or> (\<exists>vs' r'. JSONElements n r' = Parsed vs' rest \<and> vs = v # vs'))"
proof (cases "JSONValue n str")
  case (Parsed v r)
  then show ?thesis
    using assms by (cases "skipSpace r") (simp_all split: if_splits, blast)
qed (use assms in simp_all)

lemma JSONMembers_Parsed:
  assumes "JSONMembers (Suc n) obj str = Parsed ms rest"
  shows "\<exists>key v r r'. JSONValue n r = Parsed v r'
    \<and> (ms = CreateDataProperty key v obj
       \<or> (\<exists>r''. JSONMembers n (CreateDataProperty key v obj) r'' = Parsed ms rest))"
proof (cases "skipSpace str")
  case Nil
  then show ?thesis
    using assms by simp
next
  case (Cons q cs)
  note str = Cons
  show ?thesis
  proof (cases "JSONStringCharacters cs")
    case (Parsed key r)
    note key = Parsed
    show ?thesis
    proof (cases "skipSpace r")
      case Nil
      then show ?thesis
        using assms str key by (simp split: if_splits)
    next
      case (Cons colon r1)
      note colon = Cons
      show ?thesis
      proof (cases "JSONValue n r1")
        case (Parsed v r2)
        then show ?thesis
          using assms str key colon
          by (cases "skipSpace r2") (simp_all split: if_splits, blast+)
      qed (use assms str key colon in \<open>simp_all split: if_splits\<close>)
    qed
  qed (use assms str in \<open>simp_all split: if_splits\<close>)
qed

lemma parse_wellFormed:
  "(\<forall>str v rest. JSONValue n str = Parsed v rest \<longrightarrow> wellFormed v)
   \<and> (\<forall>str vs rest. JSONElements n str = Parsed vs rest \<longrightarrow> wellFormedElements vs)
   \<and> (\<forall>obj str ms rest. keysInOrder (map fst obj) \<longrightarrow> wellFormedMembers obj
        \<longrightarrow> JSONMembers n obj str = Parsed ms rest
        \<longrightarrow> keysInOrder (map fst ms) \<and> wellFormedMembers ms)"
proof (induction n)
  case 0
  show ?case by simp
next
  case (Suc n)
  have v: "wellFormed v" if "JSONValue n str = Parsed v rest" for str v rest
    using Suc that by blast
  have e: "wellFormedElements vs" if "JSONElements n str = Parsed vs rest" for str vs rest
    using Suc that by blast
  have m: "keysInOrder (map fst ms) \<and> wellFormedMembers ms"
    if "keysInOrder (map fst obj)" "wellFormedMembers obj" "JSONMembers n obj str = Parsed ms rest"
    for obj str ms rest
    using Suc that by blast
  have 1: "wellFormed v" if "JSONValue (Suc n) str = Parsed v rest" for str v rest
    using JSONValue_Parsed [OF that] e m [of "[]"] by auto
  have 2: "wellFormedElements vs" if "JSONElements (Suc n) str = Parsed vs rest" for str vs rest
    using JSONElements_Parsed [OF that] e v by auto
  have 3: "keysInOrder (map fst ms) \<and> wellFormedMembers ms"
    if ko: "keysInOrder (map fst obj)" and wo: "wellFormedMembers obj"
      and pm: "JSONMembers (Suc n) obj str = Parsed ms rest"
    for obj str ms rest
  proof -
    obtain key v r r' where val: "JSONValue n r = Parsed v r'"
      and ms: "ms = CreateDataProperty key v obj
        \<or> (\<exists>r''. JSONMembers n (CreateDataProperty key v obj) r'' = Parsed ms rest)"
      using JSONMembers_Parsed [OF pm] by blast
    have "wellFormed v"
      using val by (rule v)
    then have obj': "keysInOrder (map fst (CreateDataProperty key v obj))"
      "wellFormedMembers (CreateDataProperty key v obj)"
      using ko wo by (simp_all add: keysInOrder_CreateDataProperty
          wellFormedMembers_CreateDataProperty)
    show ?thesis
      using ms obj' m by blast
  qed
  show ?case
    using 1 2 3 by blast
qed

lemma JSON_parse_wellFormed:
  assumes "JSON_parse str = Some (Inr v)"
  shows "wellFormed v"
proof (cases "JSONValue (2 * length str + 2) str")
  case (Parsed v' rest)
  then have "v' = v"
    using assms by (simp add: JSON_parse_def split: if_splits)
  then show ?thesis
    using parse_wellFormed [of "2 * length str + 2"] Parsed by blast
qed (use assms in \<open>simp_all add: JSON_parse_def\<close>)

subsection \<open>JSON.parse reads back what JSON.stringify writes\<close>

lemma skipSpace_Cons [simp]:
  "skipSpace (c # cs) = (if jsonSpace c then skipSpace cs else c # cs)"
  by (simp add: skipSpace_def)

lemma skipSpace_spaces: "list_all jsonSpace w \<Longrightarrow> skipSpace (w @ str) = skipSpace str"
  by (induction w) simp_all

lemma indentation_spaces: "list_all jsonSpace (indentation depth)"
  by (simp add: indentation_def jsonSpace_def list_all_iff)

lemma skipSpace_indentation [simp]: "skipSpace (indentation depth @ str) = skipSpace str"
  by (simp add: skipSpace_spaces indentation_spaces)

lemma jsonSpace_simps [simp]:
  "jsonSpace (CHR 0x0A)" "jsonSpace (CHR '' '')"
  "\<not> jsonSpace (CHR 0x22)" "\<not> jsonSpace (CHR ''['')" "\<not> jsonSpace (CHR '']'')"
  "\<not> jsonSpace (CHR ''{'')" "\<not> jsonSpace (CHR ''}'')" "\<not> jsonSpace (CHR '','')"
  "\<not> jsonSpace (CHR '':'')" "\<not> jsonSpace (CHR ''n'')" "\<not> jsonSpace (CHR ''t'')"
  "\<not> jsonSpace (CHR ''f'')"
  by (simp_all add: jsonSpace_def)

lemma JSONValue_skip: "JSONValue n (CHR 0x0A # indentation depth @ str) = JSONValue n str"
  "JSONValue n (CHR '' '' # str) = JSONValue n str"
  by (cases n; simp)+

lemma SerializeJSONProperty_head:
  "\<exists>c cs. SerializeJSONProperty depth v = c # cs \<and> \<not> jsonSpace c
    \<and> c \<noteq> CHR '']'' \<and> c \<noteq> CHR ''}''"
  by (cases v) (auto simp: QuoteJSONString_def)

lemma serializeElements_head:
  assumes "vs \<noteq> []"
  shows "\<exists>c cs. skipSpace (serializeElements depth vs @ str) = c # cs \<and> c \<noteq> CHR '']''"
proof -
  obtain v vs' where vs: "vs = v # vs'"
    using assms by (cases vs) auto
  obtain c cs where "SerializeJSONProperty (Suc depth) v = c # cs" "\<not> jsonSpace c" "c \<noteq> CHR '']''"
    using SerializeJSONProperty_head by blast
  then show ?thesis
    by (simp add: vs)
qed

lemma serializeMembers_head:
  assumes "ms \<noteq> []"
  shows "\<exists>cs. skipSpace (serializeMembers depth ms @ str) = CHR 0x22 # cs"
proof -
  obtain k v ms' where ms: "ms = (k, v) # ms'"
    using assms by (cases ms) auto
  show ?thesis
    by (simp add: ms QuoteJSONString_def)
qed

lemma JSONValue_array:
  "skipSpace cs = c' # cs' \<Longrightarrow> c' \<noteq> CHR '']''
    \<Longrightarrow> JSONValue (Suc n) (CHR ''['' # cs) = mapParsed JArray (JSONElements n cs)"
  by simp

lemma JSONValue_object:
  "skipSpace cs = c' # cs' \<Longrightarrow> c' \<noteq> CHR ''}''
    \<Longrightarrow> JSONValue (Suc n) (CHR ''{'' # cs) = mapParsed JObject (JSONMembers n [] cs)"
  by simp

lemma parse_serialize:
  "wellFormed v \<longrightarrow> (\<forall>n rest. length (SerializeJSONProperty depth v) < n
      \<longrightarrow> JSONValue n (SerializeJSONProperty depth v @ rest) = Parsed v rest)"
  "wellFormedElements vs \<longrightarrow> vs \<noteq> [] \<longrightarrow> (\<forall>n rest. length (serializeElements depth vs) < n
      \<longrightarrow> JSONElements n (serializeElements depth vs @ CHR 0x0A # indentation depth @ CHR '']'' # rest)
          = Parsed vs rest)"
  "wellFormedMembers ms \<longrightarrow> ms \<noteq> [] \<longrightarrow> (\<forall>n obj rest. keysInOrder (map fst obj @ map fst ms)
      \<longrightarrow> length (serializeMembers depth ms) < n
      \<longrightarrow> JSONMembers n obj (serializeMembers depth ms @ CHR 0x0A # indentation depth @ CHR ''}'' # rest)
          = Parsed (obj @ ms) rest)"
proof (induction depth v and depth vs and depth ms
    rule: SerializeJSONProperty_serializeElements_serializeMembers.induct)
  case (1 depth)
  show ?case
  proof (intro impI allI)
    fix n rest
    assume "length (SerializeJSONProperty depth JNull) < n"
    then obtain n' where "n = Suc n'"
      by (cases n) auto
    then show "JSONValue n (SerializeJSONProperty depth JNull @ rest) = Parsed JNull rest"
      by (simp add: startsWith_def)
  qed
next
  case (2 depth b)
  show ?case
  proof (intro impI allI)
    fix n rest
    assume "length (SerializeJSONProperty depth (JBool b)) < n"
    then obtain n' where "n = Suc n'"
      by (cases n) auto
    then show "JSONValue n (SerializeJSONProperty depth (JBool b) @ rest) = Parsed (JBool b) rest"
      by (simp add: startsWith_def)
  qed
next
  case (3 depth s)
  show ?case
  proof (intro impI allI)
    fix n rest
    assume "length (SerializeJSONProperty depth (JString s)) < n"
    then obtain n' where "n = Suc n'"
      by (cases n) auto
    then show "JSONValue n (SerializeJSONProperty depth (JString s) @ rest) = Parsed (JString s) rest"
      by (simp add: QuoteJSONString_def JSONStringCharacters_quote)
  qed
next
  case (4 depth vs)
  show ?case
  proof (intro impI allI)
    fix n rest
    assume wf: "wellFormed (JArray vs)"
      and len: "length (SerializeJSONProperty depth (JArray vs)) < n"
    obtain n' where n: "n = Suc n'"
      using len by (cases n) auto
    show "JSONValue n (SerializeJSONProperty depth (JArray vs) @ rest) = Parsed (JArray vs) rest"
    proof (cases "vs = []")
      case True
      then show ?thesis
        by (simp add: n)
    next
      case False
      let ?cs = "serializeElements depth vs @ CHR 0x0A # indentation depth @ CHR '']'' # rest"
      obtain c' cs' where hd: "skipSpace ?cs = c' # cs'" "c' \<noteq> CHR '']''"
        using serializeElements_head [OF False] by blast
      have "length (serializeElements depth vs) < n'"
        using len False by (simp add: n)
      then have "JSONElements n' ?cs = Parsed vs rest"
        using 4 False wf by simp
      then have "JSONValue (Suc n') (CHR ''['' # ?cs) = Parsed (JArray vs) rest"
        by (simp only: JSONValue_array [OF hd] mapParsed_simps)
      then show ?thesis
        using False by (simp add: n)
    qed
  qed
next
  case (5 depth ms)
  show ?case
  proof (intro impI allI)
    fix n rest
    assume wf: "wellFormed (JObject ms)"
      and len: "length (SerializeJSONProperty depth (JObject ms)) < n"
    obtain n' where n: "n = Suc n'"
      using len by (cases n) auto
    show "JSONValue n (SerializeJSONProperty depth (JObject ms) @ rest) = Parsed (JObject ms) rest"
    proof (cases "ms = []")
      case True
      then show ?thesis
        by (simp add: n)
    next
      case False
      let ?cs = "serializeMembers depth ms @ CHR 0x0A # indentation depth @ CHR ''}'' # rest"
      obtain cs' where hd: "skipSpace ?cs = CHR 0x22 # cs'"
        using serializeMembers_head [OF False] by blast
      have "length (serializeMembers depth ms) < n'"
        using len False by (simp add: n)
      then have "JSONMembers n' [] ?cs = Parsed ([] @ ms) rest"
        using 5 False wf by simp
      moreover have "JSONValue (Suc n') (CHR ''{'' # ?cs) = mapParsed JObject (JSONMembers n' [] ?cs)"
        by (rule JSONValue_object [OF hd]) simp
      ultimately have "JSONValue (Suc n') (CHR ''{'' # ?cs) = Parsed (JObject ms) rest"
        by (simp only: mapParsed_simps append_Nil)
      then show ?thesis
        using False by (simp add: n)
    qed
  qed
next
  case (6 depth)
  show ?case by simp
next
  case (7 depth v vs)
  show ?case
  proof (intro impI allI)
    fix n rest
    assume wf: "wellFormedElements (v # vs)"
      and len: "length (serializeElements depth (v # vs)) < n"
    obtain n' where n: "n = Suc n'"
      using len by (cases n) auto
    let ?close = "CHR 0x0A # indentation depth @ CHR '']'' # rest"
    let ?tail = "(if vs = [] then [] else CHR '','' # serializeElements depth vs) @ ?close"
    have str: "serializeElements depth (v # vs) @ ?close
        = CHR 0x0A # indentation (Suc depth) @ SerializeJSONProperty (Suc depth) v @ ?tail"
      by simp
    have "length (SerializeJSONProperty (Suc depth) v) < n'"
      using len by (simp add: n)
    then have "JSONValue n' (SerializeJSONProperty (Suc depth) v @ ?tail) = Parsed v ?tail"
      using 7(1) wf by simp
    then have val: "JSONValue n' (serializeElements depth (v # vs) @ ?close) = Parsed v ?tail"
      by (simp only: str JSONValue_skip)
    show "JSONElements n (serializeElements depth (v # vs) @ ?close) = Parsed (v # vs) rest"
    proof (cases "vs = []")
      case True
      then show ?thesis
        unfolding n JSONElements.simps val by simp
    next
      case False
      have "length (serializeElements depth vs) < n'"
        using len False by (simp add: n)
      then have "JSONElements n' (serializeElements depth vs @ ?close) = Parsed vs rest"
        using 7(2) False wf by simp
      then show ?thesis
        unfolding n JSONElements.simps val using False by simp
    qed
  qed
next
  case (8 depth)
  show ?case by simp
next
  case (9 depth k v ms)
  show ?case
  proof (intro impI allI)
    fix n and obj :: "(string \<times> json) list" and rest
    assume wf: "wellFormedMembers ((k, v) # ms)"
      and keys: "keysInOrder (map fst obj @ map fst ((k, v) # ms))"
      and len: "length (serializeMembers depth ((k, v) # ms)) < n"
    obtain n' where n: "n = Suc n'"
      using len by (cases n) auto
    let ?close = "CHR 0x0A # indentation depth @ CHR ''}'' # rest"
    let ?tail = "(if ms = [] then [] else CHR '','' # serializeMembers depth ms) @ ?close"
    let ?member = "CHR '':'' # CHR '' '' # SerializeJSONProperty (Suc depth) v @ ?tail"
    have str: "skipSpace (serializeMembers depth ((k, v) # ms) @ ?close)
        = CHR 0x22 # concat (map quoteChar k) @ CHR 0x22 # ?member"
      by (simp add: QuoteJSONString_def)
    have "length (SerializeJSONProperty (Suc depth) v) < n'"
      using len by (simp add: n)
    then have "JSONValue n' (SerializeJSONProperty (Suc depth) v @ ?tail) = Parsed v ?tail"
      using 9(1) wf by simp
    then have val: "JSONValue n' (CHR '' '' # SerializeJSONProperty (Suc depth) v @ ?tail) = Parsed v ?tail"
      by (simp only: JSONValue_skip)
    have "keysInOrder (map fst obj @ [k])"
      using keysInOrder_prefix [of "map fst obj @ [k]" "map fst ms"] keys by simp
    then have new: "CreateDataProperty k v obj = obj @ [(k, v)]"
      by (rule CreateDataProperty_append)
    show "JSONMembers n obj (serializeMembers depth ((k, v) # ms) @ ?close)
        = Parsed (obj @ (k, v) # ms) rest"
    proof (cases "ms = []")
      case True
      have "JSONValue n' (CHR '' '' # SerializeJSONProperty (Suc depth) v @ ?close) = Parsed v ?close"
        using val True by simp
      then show ?thesis
        unfolding n JSONMembers.simps str using True
        by (simp add: JSONStringCharacters_quote new)
    next
      case False
      have "length (serializeMembers depth ms) < n'"
        using len False by (simp add: n)
      moreover have "keysInOrder (map fst (obj @ [(k, v)]) @ map fst ms)"
        using keys by simp
      ultimately have "JSONMembers n' (obj @ [(k, v)]) (serializeMembers depth ms @ ?close)
          = Parsed ((obj @ [(k, v)]) @ ms) rest"
        using 9(2) False wf by simp
      moreover have "JSONValue n' (CHR '' '' # SerializeJSONProperty (Suc depth) v
            @ CHR '','' # serializeMembers depth ms @ ?close)
          = Parsed v (CHR '','' # serializeMembers depth ms @ ?close)"
        using val False by simp
      ultimately show ?thesis
        unfolding n JSONMembers.simps str using False
        by (simp add: JSONStringCharacters_quote new)
    qed
  qed
qed

lemma SerializeJSONProperty_not_empty: "SerializeJSONProperty depth v \<noteq> []"
  by (cases v) (simp_all add: QuoteJSONString_def)

lemma JSON_parse_stringify:
  assumes "wellFormed v"
  shows "JSON_parse (JSON_stringify v) = Some (Inr v)"
proof -
  have "length (SerializeJSONProperty 0 v) < 2 * length (SerializeJSONProperty 0 v) + 2"
    by simp
  then have "JSONValue (2 * length (SerializeJSONProperty 0 v) + 2) (SerializeJSONProperty 0 v @ [])
      = Parsed v []"
    using parse_serialize(1) [of v 0] assms by blast
  then show ?thesis
    unfolding JSON_parse_def JSON_stringify_def by (simp add: skipSpace_def)
qed

text \<open>
  C8. A settings file that \<^verbatim>\<open>getPermissionSettings\<close> loads as a document is, after
  \<^verbatim>\<open>savePermissionSettings\<close> of that document, a file that loads as the same document:
  the text may change (line breaks, indentation, escapes, the order of the keys that are
  array indices), the document does not. An empty file is loaded as the empty
  object \<^verbatim>\<open>{}\<close>.
\<close>

theorem save_after_load:
  "getPermissionSettings [] = Some (Inr (JObject []))
   \<and> (getPermissionSettings jsonString = Some (Inr settings)
        \<longrightarrow> getPermissionSettings (savePermissionSettings settings) = Some (Inr settings))"
proof (intro conjI impI)
  show "getPermissionSettings [] = Some (Inr (JObject []))"
    by code_simp
next
  assume "getPermissionSettings jsonString = Some (Inr settings)"
  then have "wellFormed settings"
    unfolding getPermissionSettings_def by (rule JSON_parse_wellFormed)
  then have "JSON_parse (JSON_stringify settings) = Some (Inr settings)"
    by (rule JSON_parse_stringify)
  moreover have "JSON_stringify settings \<noteq> []"
    by (simp add: JSON_stringify_def SerializeJSONProperty_not_empty)
  ultimately show "getPermissionSettings (savePermissionSettings settings) = Some (Inr settings)"
    by (simp add: getPermissionSettings_def savePermissionSettings_def)
qed

theorem save_after_load_witness:
  "getPermissionSettings storedText = Some (Inr storedDocument)
   \<and> savePermissionSettings storedDocument =
       concat (map (\<lambda>line. line @ [CHR 0x0A])
         [''{'',
          ''    \"9\": {'',
          ''        \"users\": {'',
          ''            \"U1\": {'',
          ''                \"permissions\": ['',
          ''                    \"meme\",'',
          ''                    \"help\"'',
          ''                ]'',
          ''            }'',
          ''        }'',
          ''    },'',
          ''    \"10\": {'',
          ''        \"users\": {}'',
          ''    },'',
          ''    \"T2\": {}'']) @ ''}''
   \<and> getPermissionSettings (savePermissionSettings storedDocument) = Some (Inr storedDocument)"
proof -
  have "getPermissionSettings storedText = Some (Inr storedDocument)"
    by code_simp
  moreover have "savePermissionSettings storedDocument =
       concat (map (\<lambda>line. line @ [CHR 0x0A])
         [''{'',
          ''    \"9\": {'',
          ''        \"users\": {'',
          ''            \"U1\": {'',
          ''                \"permissions\": ['',
          ''                    \"meme\",'',
          ''                    \"help\"'',
          ''                ]'',
          ''            }'',
          ''        }'',
          ''    },'',
          ''    \"10\": {'',
          ''        \"users\": {}'',
          ''    },'',
          ''    \"T2\": {}'']) @ ''}''"
    by code_simp
  ultimately show ?thesis
    using save_after_load [of storedText storedDocument] by simp
qed

section \<open>Properties of the permission command\<close>

text \<open>
  C5. The command list \<^verbatim>\<open>meme, ban\<close> is split at the comma into \<^verbatim>\<open>meme\<close> and \<^verbatim>\<open>ban\<close> with a
  leading blank. The filter of administrator-only commands compares the entries before
  they are trimmed, so the entry with the blank passes it although \<^verbatim>\<open>ban\<close> is registered
  as administrator-only, and after the trimming \<^verbatim>\<open>ban\<close> is granted to the mentioned user.
\<close>

theorem execute_grants_admin_only_command:
  "filter adminOnly registry = [\<lparr>name = ''ban'', adminOnly = True\<rparr>]
   \<and> (case execute noAdmins offline
             \<lparr>m0 = ''permission grant meme, ban @Bob'', m1 = ''grant'', m2 = ''meme, ban ''\<rparr>
             bobEvent registry emptyBot of
         Inl e \<Rightarrow> None
       | Inr b \<Rightarrow> Some (stored b))
      = Some [(''T1'', \<lparr>users = Some [(''100'', \<lparr>permissions = Some [''meme'', ''ban'']\<rparr>)],
                       others = []\<rparr>)]"
  by (simp add: execute_def grant_def registry_def bobEvent_def emptyBot_def noAdmins_def
                trim_def is_space_def expandAll_def resolvePersons_def hasCommands_def
                withoutAdminCommands_def userHasPermission_def addPermissionToUserInThread_def
                getProperty_def objectPrototypeNames_def persist_def sendMessage_def Let_def)

text \<open>
  C6, as stated, fails: without mentions and with \<^verbatim>\<open>@all\<close> in the text the participants of
  the thread are looked up before the commands are validated, so when that lookup is
  rejected, or a participant has no entry in the user info, an unregistered command
  leads to the exception and to no warning.
\<close>

theorem unknown_command_counterexample:
  "\<not> hasCommands registry (expandAll registry [''foo''])
   \<and> grant noAdmins offline
        \<lparr>m0 = ''permission grant foo @all'', m1 = ''grant'', m2 = ''foo ''\<rparr>
        \<lparr>threadID = ''T1'', messageID = ''M1'', mentions = []\<rparr> [''foo''] registry [] emptyBot
      = Inl NetworkError
   \<and> revoke offline
        \<lparr>m0 = ''permission revoke foo @all'', m1 = ''revoke'', m2 = ''foo ''\<rparr>
        \<lparr>threadID = ''T1'', messageID = ''M1'', mentions = []\<rparr> [''foo''] registry [] emptyBot
      = Inl NetworkError
   \<and> grant noAdmins strangerInfo
        \<lparr>m0 = ''permission grant foo @all'', m1 = ''grant'', m2 = ''foo ''\<rparr>
        \<lparr>threadID = ''T1'', messageID = ''M1'', mentions = []\<rparr> [''foo''] registry [] emptyBot
      = Inl TypeError"
  by (simp add: grant_def revoke_def registry_def emptyBot_def offline_def strangerInfo_def
                expandAll_def resolvePersons_def hasCommands_def indexOf_def Let_def)

text \<open>
  C6, amended. In \<^verbatim>\<open>grant\<close> and in \<^verbatim>\<open>revoke\<close>: if there are no mentions and the text does
  not contain \<^verbatim>\<open>@all\<close>, or if the target users are resolved (mentions are given, or the
  \<^verbatim>\<open>@all\<close> expansion succeeds) and no registered command is among the requested names,
  then the handler returns normally, the only message sent is one warning, and the
  stored document and the number of writes are as before.
\<close>

theorem warning_without_mutation:
  "(persons = [] \<and> indexOf (m0 matches) ''@all'' = - 1 \<longrightarrow>
      grant g ti matches event given commands persons b
        = Inr (b\<lparr>sent := sent b @
                 [(Warning ''No person is being granted permission(s), please type @all or @person.'',
                   threadID event, messageID event)]\<rparr>)
      \<and> revoke ti matches event given commands persons b
        = Inr (b\<lparr>sent := sent b @
                 [(Warning ''No person is being revoked of permission(s), please type @all or @person.'',
                   threadID event, messageID event)]\<rparr>))
   \<and> ((\<exists>ps. resolvePersons ti matches event persons = Inr (Some ps))
        \<and> \<not> hasCommands commands (expandAll commands given) \<longrightarrow>
      grant g ti matches event given commands persons b
        = Inr (b\<lparr>sent := sent b @
                 [(Warning (CHR '' '' # unknownCommands (expandAll commands given)),
                   threadID event, messageID event)]\<rparr>)
      \<and> revoke ti matches event given commands persons b
        = Inr (b\<lparr>sent := sent b @
                 [(Warning (unknownCommands (expandAll commands given)),
                   threadID event, messageID event)]\<rparr>))"
proof (intro conjI impI)
  assume a: "persons = [] \<and> indexOf (m0 matches) ''@all'' = - 1"
  then have r: "resolvePersons ti matches event persons = Inr None"
    by (simp add: resolvePersons_def)
  show "grant g ti matches event given commands persons b
        = Inr (b\<lparr>sent := sent b @
                 [(Warning ''No person is being granted permission(s), please type @all or @person.'',
                   threadID event, messageID event)]\<rparr>)"
    by (simp add: grant_def r sendMessage_def Let_def)
  show "revoke ti matches event given commands persons b
        = Inr (b\<lparr>sent := sent b @
                 [(Warning ''No person is being revoked of permission(s), please type @all or @person.'',
                   threadID event, messageID event)]\<rparr>)"
    by (simp add: revoke_def r sendMessage_def Let_def)
next
  assume a: "(\<exists>ps. resolvePersons ti matches event persons = Inr (Some ps))
        \<and> \<not> hasCommands commands (expandAll commands given)"
  then obtain ps where r: "resolvePersons ti matches event persons = Inr (Some ps)"
    and n: "\<not> hasCommands commands (expandAll commands given)" by blast
  show "grant g ti matches event given commands persons b
        = Inr (b\<lparr>sent := sent b @
                 [(Warning (CHR '' '' # unknownCommands (expandAll commands given)),
                   threadID event, messageID event)]\<rparr>)"
    by (simp add: grant_def r n sendMessage_def Let_def)
  show "revoke ti matches event given commands persons b
        = Inr (b\<lparr>sent := sent b @
                 [(Warning (unknownCommands (expandAll commands given)),
                   threadID event, messageID event)]\<rparr>)"
    by (simp add: revoke_def r n sendMessage_def Let_def)
qed

theorem warning_without_mutation_witness:
  "indexOf ''permission grant meme'' ''@all'' = - 1
   \<and> grant noAdmins offline \<lparr>m0 = ''permission grant meme'', m1 = ''grant'', m2 = ''meme''\<rparr>
        \<lparr>threadID = ''T1'', messageID = ''M1'', mentions = []\<rparr> [''meme''] registry [] emptyBot
      = Inr \<lparr>stored = [], writes = 0,
             sent = [(Warning ''No person is being granted permission(s), please type @all or @person.'',
                      ''T1'', ''M1'')]\<rparr>
   \<and> resolvePersons offline \<lparr>m0 = ''permission revoke foo @Bob'', m1 = ''revoke'', m2 = ''foo ''\<rparr>
        bobEvent (mentions bobEvent) = Inr (Some [(''100'', ''@Bob'')])
   \<and> \<not> hasCommands registry (expandAll registry [''foo''])
   \<and> revoke offline \<lparr>m0 = ''permission revoke foo @Bob'', m1 = ''revoke'', m2 = ''foo ''\<rparr>
        bobEvent [''foo''] registry (mentions bobEvent) emptyBot
      = Inr \<lparr>stored = [], writes = 0,
             sent = [(Warning (unknownCommands [''foo'']), ''T1'', ''M1'')]\<rparr>"
  using warning_without_mutation
          [of "[]" "\<lparr>m0 = ''permission grant meme'', m1 = ''grant'', m2 = ''meme''\<rparr>"
              noAdmins offline "\<lparr>threadID = ''T1'', messageID = ''M1'', mentions = []\<rparr>"
              "[''meme'']" registry emptyBot]
        warning_without_mutation
          [of "mentions bobEvent" "\<lparr>m0 = ''permission revoke foo @Bob'', m1 = ''revoke'', m2 = ''foo ''\<rparr>"
              noAdmins offline bobEvent "[''foo'']" registry emptyBot]
  by (simp add: registry_def bobEvent_def emptyBot_def
                expandAll_def resolvePersons_def hasCommands_def indexOf_def)

end
